theory Spec2Isabelle
  imports Main "HOL-Library.Sublist"
begin

section \<open>Data model\<close>

text \<open>
  The records follow the TypeScript interfaces of the dashboards and the object literals
  the server handlers build. A JavaScript string is a \<^typ>\<open>string\<close>; each
  character stands for one code unit below 256. An optional property (\<open>title?\<close>) or
  a property a request body may omit is an \<^typ>\<open>'a option\<close>, \<open>None\<close> being
  \<open>undefined\<close>. A \<open>number\<close> holding a week number or an option index is an
  \<^typ>\<open>int\<close>.
\<close>

text \<open>\<open>ContentItem\<close> of \<open>StudentDashboard.tsx\<close>; a stored link is a bare string
  (legacy) or a \<open>ContentItem\<close>.\<close>

record ContentItem =
  url :: string
  title :: "string option"

datatype link = Bare string | Item ContentItem

text \<open>\<open>Question\<close> of \<open>StudentDashboard.tsx\<close>; \<open>q_type\<close> is absent on legacy
  questions.\<close>

record Question =
  q_type :: "string option"
  question :: string
  options :: "string list option"
  correctAnswer :: "int option"
  sampleAnswer :: "string option"

text \<open>The week object the create handler builds; the update handler may add
  \<open>description\<close>.\<close>

record Week =
  week_id :: string
  subjectId :: string
  weekNumber :: int
  week_title :: string
  description :: "string option"
  published :: bool
  videoLinks :: "link list"
  audioLinks :: "link list"
  pdfLinks :: "link list"
  questions :: "Question list"
  week_createdAt :: string

record Subject =
  subject_id :: string
  subject_name :: string
  subject_description :: string
  subject_createdAt :: string

record Profile =
  profile_id :: string
  email :: string
  profile_name :: string
  role :: string
  profile_createdAt :: string

record Progress =
  userId :: string
  weekId :: string
  completed :: bool
  lastAccessed :: string

text \<open>A value of the key-value store is one of the four records the handlers write.\<close>

datatype kv_value =
  VProfile Profile | VSubject Subject | VWeek Week | VProgress Progress

type_synonym store = "(string \<times> kv_value) list"

section \<open>Key-value store\<close>

text \<open>
  Modelled from the spec: \<open>kv_store.tsx\<close> (the module the server imports as \<open>kv\<close>)
  is not among the sources. Section 4.1 of the specification gives its contract:
  \<open>get(key)\<close> returns the value or absent; \<open>set(key, value)\<close> overwrites
  unconditionally; \<open>delete(key)\<close> is idempotent; \<open>scanByPrefix(prefix)\<close> returns the
  list of values whose key starts with the prefix, in no specified order. The store is an
  association list; the scan returns the values in list order, and no theorem below
  depends on which order that is.
\<close>

definition kv_get :: "string \<Rightarrow> store \<Rightarrow> kv_value option" where
  "kv_get k s = map_of s k"

definition kv_del :: "string \<Rightarrow> store \<Rightarrow> store" where
  "kv_del k s = filter (\<lambda>e. fst e \<noteq> k) s"

definition kv_set :: "string \<Rightarrow> kv_value \<Rightarrow> store \<Rightarrow> store" where
  "kv_set k v s = kv_del k s @ [(k, v)]"

definition getByPrefix :: "string \<Rightarrow> store \<Rightarrow> kv_value list" where
  "getByPrefix p s = map snd (filter (\<lambda>e. prefix p (fst e)) s)"

section \<open>JavaScript built-ins the handlers use\<close>

text \<open>\<open>String.prototype.split\<close> with a one-character separator: every occurrence of the
  separator ends a piece, so \<open>"a  b".split(" ")\<close> is \<open>["a", "", "b"]\<close> and the result
  is never empty.\<close>

fun split_on :: "char \<Rightarrow> string \<Rightarrow> string list" where
  "split_on c [] = [[]]"
| "split_on c (x # xs) =
     (if x = c then [] # split_on c xs
      else (case split_on c xs of [] \<Rightarrow> [[x]] | w # ws \<Rightarrow> (x # w) # ws))"

text \<open>\<open>Array.prototype.sort(compareFn)\<close> is a stable sort (ECMAScript 2019): an element
  goes before the first element it does not compare greater than, so elements that
  compare equal keep their order. \<open>Array.prototype.find\<close> is \<^const>\<open>List.find\<close>.\<close>

fun insert_cmp :: "('a \<Rightarrow> 'a \<Rightarrow> int) \<Rightarrow> 'a \<Rightarrow> 'a list \<Rightarrow> 'a list" where
  "insert_cmp cmp x [] = [x]"
| "insert_cmp cmp x (y # ys) =
     (if cmp x y \<le> 0 then x # y # ys else y # insert_cmp cmp x ys)"

definition js_sort :: "('a \<Rightarrow> 'a \<Rightarrow> int) \<Rightarrow> 'a list \<Rightarrow> 'a list" where
  "js_sort cmp xs = foldr (insert_cmp cmp) xs []"

text \<open>\<open>String.prototype.trim\<close> removes white space and line terminators from both ends;
  below 256 these are tab, line feed, vertical tab, form feed, carriage return, space and
  the no-break space.\<close>

definition is_space :: "char \<Rightarrow> bool" where
  "is_space c = (c \<in> set [CHR 0x09, CHR 0x0A, CHR 0x0B, CHR 0x0C, CHR 0x0D, CHR 0x20, CHR 0xA0])"

definition trim :: "string \<Rightarrow> string" where
  "trim s = rev (dropWhile is_space (rev (dropWhile is_space s)))"

text \<open>Truthiness of a string, and of a possibly absent string or number: the empty
  string, zero and \<open>undefined\<close> are falsy.\<close>

definition truthy :: "string \<Rightarrow> bool" where
  "truthy s = (s \<noteq> [])"

fun truthy_opt :: "string option \<Rightarrow> bool" where
  "truthy_opt None = False"
| "truthy_opt (Some s) = truthy s"

fun truthy_num :: "int option \<Rightarrow> bool" where
  "truthy_num None = False"
| "truthy_num (Some n) = (n \<noteq> 0)"

section \<open>Server: requests, responses and authorization\<close>

text \<open>
  What a handler takes from outside the store: the identity provider
  (\<open>supabase.auth.getUser\<close>, the id of the token's user, or \<open>None\<close> when it reports an
  error or no user), the text \<open>`${Date.now()}_${Math.random().toString(36).substr(2, 9)}`\<close>
  that makes a new id, and \<open>new Date().toISOString()\<close>.
\<close>

record env =
  getUser :: "string \<Rightarrow> string option"
  id_stamp :: string
  iso_now :: string

text \<open>A response is \<open>c.json({error: message}, status)\<close> or a success body (status 200).\<close>

datatype 'a response = Failure nat string | Json 'a

text \<open>The status and message an authorization check rejects a request with, and the
  response made of them.\<close>

datatype rejection = Reject nat string

fun reply :: "rejection \<Rightarrow> 'a response" where
  "reply (Reject status message) = Failure status message"

text \<open>\<open>c.req.header('Authorization')?.split(' ')[1]\<close>\<close>

definition accessToken :: "string option \<Rightarrow> string option" where
  "accessToken header =
     (case header of
        None \<Rightarrow> None
      | Some v \<Rightarrow> (case split_on CHR '' '' v of a # t # r \<Rightarrow> Some t | _ \<Rightarrow> None))"

text \<open>The first two checks every authenticated handler opens with: a missing token, or a
  token the identity provider does not verify, is answered 401.\<close>

definition authenticate :: "env \<Rightarrow> string option \<Rightarrow> rejection + string" where
  "authenticate e header =
     (if \<not> truthy_opt (accessToken header) then Inl (Reject 401 ''Unauthorized'')
      else (case accessToken header of
              None \<Rightarrow> Inl (Reject 401 ''Unauthorized'')
            | Some token \<Rightarrow>
                (case getUser e token of
                   None \<Rightarrow> Inl (Reject 401 ''Unauthorized'')
                 | Some uid \<Rightarrow> Inr uid)))"

text \<open>The third check of every admin handler:
  \<open>!userProfile || userProfile.role !== 'admin'\<close> is answered 403.\<close>

definition is_admin :: "kv_value option \<Rightarrow> bool" where
  "is_admin v = (case v of Some (VProfile p) \<Rightarrow> role p = ''admin'' | _ \<Rightarrow> False)"

definition require_admin :: "env \<Rightarrow> string option \<Rightarrow> store \<Rightarrow> rejection + string" where
  "require_admin e header s =
     (case authenticate e header of
        Inl r \<Rightarrow> Inl r
      | Inr uid \<Rightarrow>
          (if \<not> is_admin (kv_get (''users:'' @ uid) s)
           then Inl (Reject 403 ''Admin access required'')
           else Inr uid))"

section \<open>Server: subjects\<close>

text \<open>A route parameter or a local constant whose name is also a property of a record
  is written \<open>p_subjectId\<close>, \<open>p_weekId\<close> or \<open>new_id\<close>.\<close>

text \<open>A request body after \<open>await c.req.json()\<close>: \<open>None\<close> when the body is not JSON
  (the call throws and the handler's \<open>catch\<close> answers 500), else the properties the
  handler destructures, each possibly absent.\<close>

record subject_body =
  b_name :: "string option"
  b_subject_description :: "string option"

text \<open>\<open>POST /admin/subjects\<close>\<close>

definition create_subject ::
  "env \<Rightarrow> string option \<Rightarrow> subject_body option \<Rightarrow> store \<Rightarrow> Subject response \<times> store" where
  "create_subject e header body s =
     (case require_admin e header s of
        Inl r \<Rightarrow> (reply r, s)
      | Inr uid \<Rightarrow>
          (case body of
             None \<Rightarrow> (Failure 500 ''Failed to create subject'', s)
           | Some b \<Rightarrow>
               (case b_name b of
                  None \<Rightarrow> (Failure 400 ''Subject name is required'', s)
                | Some name \<Rightarrow>
                    if \<not> truthy name then (Failure 400 ''Subject name is required'', s)
                    else
                      let new_id = ''subject_'' @ id_stamp e;
                          subject = \<lparr>subject_id = new_id,
                                     subject_name = name,
                                     subject_description =
                                       (if truthy_opt (b_subject_description b)
                                        then (case b_subject_description b of
                                                Some d \<Rightarrow> d | None \<Rightarrow> [])
                                        else []),
                                     subject_createdAt = iso_now e\<rparr>
                      in (Json subject, kv_set (''subjects:'' @ new_id) (VSubject subject) s))))"

text \<open>\<open>GET /subjects\<close>\<close>

definition get_subjects :: "store \<Rightarrow> kv_value list response" where
  "get_subjects s = Json (getByPrefix ''subjects:'' s)"

text \<open>
  The handlers read every value scanned under a \<open>weeks:\<close> prefix as a week. Only the week
  handlers write such keys and they write weeks; a value of another kind has no place
  there and is skipped.
\<close>

fun as_weeks :: "kv_value list \<Rightarrow> Week list" where
  "as_weeks [] = []"
| "as_weeks (VWeek w # vs) = w # as_weeks vs"
| "as_weeks (v # vs) = as_weeks vs"

text \<open>\<open>DELETE /admin/subjects/:id\<close>: the subject key is deleted, then one key for every
  week the scan of the subject's prefix returns, built from that week's \<open>id\<close>.\<close>

definition delete_subject ::
  "env \<Rightarrow> string option \<Rightarrow> string \<Rightarrow> store \<Rightarrow> unit response \<times> store" where
  "delete_subject e header p_subjectId s =
     (case require_admin e header s of
        Inl r \<Rightarrow> (reply r, s)
      | Inr uid \<Rightarrow>
          let s1 = kv_del (''subjects:'' @ p_subjectId) s;
              weeks = as_weeks (getByPrefix (''weeks:'' @ p_subjectId @ '':'') s1)
          in (Json (),
              foldl (\<lambda>st week. kv_del (''weeks:'' @ p_subjectId @ '':'' @ week_id week) st)
                s1 weeks))"

section \<open>Server: weeks\<close>

text \<open>The body of \<open>POST /admin/weeks\<close> and of \<open>PUT /admin/weeks/:id\<close>: any subset of a
  week's properties.\<close>

record week_body =
  b_id :: "string option"
  b_subjectId :: "string option"
  b_weekNumber :: "int option"
  b_title :: "string option"
  b_description :: "string option"
  b_published :: "bool option"
  b_videoLinks :: "link list option"
  b_audioLinks :: "link list option"
  b_pdfLinks :: "link list option"
  b_questions :: "Question list option"
  b_createdAt :: "string option"

text \<open>\<open>x || d\<close> for an array or a boolean that may be absent: an array, even an empty
  one, is truthy.\<close>

fun or_else :: "'a option \<Rightarrow> 'a \<Rightarrow> 'a" where
  "or_else None d = d"
| "or_else (Some x) d = x"

fun or_false :: "bool option \<Rightarrow> bool" where
  "or_false None = False"
| "or_false (Some b) = b"

text \<open>\<open>POST /admin/weeks\<close>\<close>

definition create_week ::
  "env \<Rightarrow> string option \<Rightarrow> week_body option \<Rightarrow> store \<Rightarrow> Week response \<times> store" where
  "create_week e header body s =
     (case require_admin e header s of
        Inl r \<Rightarrow> (reply r, s)
      | Inr uid \<Rightarrow>
          (case body of
             None \<Rightarrow> (Failure 500 ''Failed to create week'', s)
           | Some b \<Rightarrow>
               if \<not> truthy_opt (b_subjectId b) \<or> \<not> truthy_num (b_weekNumber b)
                  \<or> \<not> truthy_opt (b_title b)
               then (Failure 400 ''Missing required fields'', s)
               else
                 let new_id = ''week_'' @ id_stamp e;
                     week = \<lparr>week_id = new_id,
                              subjectId = or_else (b_subjectId b) [],
                              weekNumber = or_else (b_weekNumber b) 0,
                              week_title = or_else (b_title b) [],
                              description = None,
                              published = or_false (b_published b),
                              videoLinks = or_else (b_videoLinks b) [],
                              audioLinks = or_else (b_audioLinks b) [],
                              pdfLinks = or_else (b_pdfLinks b) [],
                              questions = or_else (b_questions b) [],
                              week_createdAt = iso_now e\<rparr>
                 in (Json week,
                     kv_set (''weeks:'' @ subjectId week @ '':'' @ new_id) (VWeek week) s)))"

text \<open>\<open>{ ...week, ...updates }\<close>: a property of \<open>updates\<close> replaces the week's, a property
  \<open>updates\<close> lacks stays.\<close>

definition spread :: "Week \<Rightarrow> week_body \<Rightarrow> Week" where
  "spread week updates =
     \<lparr>week_id = or_else (b_id updates) (week_id week),
      subjectId = or_else (b_subjectId updates) (subjectId week),
      weekNumber = or_else (b_weekNumber updates) (weekNumber week),
      week_title = or_else (b_title updates) (week_title week),
      description = (case b_description updates of
                       None \<Rightarrow> description week | Some d \<Rightarrow> Some d),
      published = or_else (b_published updates) (published week),
      videoLinks = or_else (b_videoLinks updates) (videoLinks week),
      audioLinks = or_else (b_audioLinks updates) (audioLinks week),
      pdfLinks = or_else (b_pdfLinks updates) (pdfLinks week),
      questions = or_else (b_questions updates) (questions week),
      week_createdAt = or_else (b_createdAt updates) (week_createdAt week)\<rparr>"

text \<open>\<open>PUT /admin/weeks/:id\<close>: the week is looked up by scanning every week; the merged
  week is written under the key built from the found week's \<open>subjectId\<close>.\<close>

definition update_week ::
  "env \<Rightarrow> string option \<Rightarrow> string \<Rightarrow> week_body option \<Rightarrow> store \<Rightarrow> Week response \<times> store" where
  "update_week e header p_weekId body s =
     (case require_admin e header s of
        Inl r \<Rightarrow> (reply r, s)
      | Inr uid \<Rightarrow>
          (case body of
             None \<Rightarrow> (Failure 500 ''Failed to update week'', s)
           | Some updates \<Rightarrow>
               let allWeeks = as_weeks (getByPrefix ''weeks:'' s)
               in (case find (\<lambda>w. week_id w = p_weekId) allWeeks of
                     None \<Rightarrow> (Failure 404 ''Week not found'', s)
                   | Some week \<Rightarrow>
                       let updatedWeek = spread week updates
                       in (Json updatedWeek,
                           kv_set (''weeks:'' @ subjectId week @ '':'' @ p_weekId)
                             (VWeek updatedWeek) s))))"

text \<open>\<open>DELETE /admin/weeks/:id\<close>\<close>

definition delete_week ::
  "env \<Rightarrow> string option \<Rightarrow> string \<Rightarrow> store \<Rightarrow> unit response \<times> store" where
  "delete_week e header p_weekId s =
     (case require_admin e header s of
        Inl r \<Rightarrow> (reply r, s)
      | Inr uid \<Rightarrow>
          let allWeeks = as_weeks (getByPrefix ''weeks:'' s)
          in (case find (\<lambda>w. week_id w = p_weekId) allWeeks of
                None \<Rightarrow> (Failure 404 ''Week not found'', s)
              | Some week \<Rightarrow>
                  (Json (), kv_del (''weeks:'' @ subjectId week @ '':'' @ p_weekId) s)))"

text \<open>\<open>GET /weeks/:subjectId\<close>: the prefix scan, sorted with
  \<open>(a, b) => a.weekNumber - b.weekNumber\<close>.\<close>

definition by_weekNumber :: "Week \<Rightarrow> Week \<Rightarrow> int" where
  "by_weekNumber a b = weekNumber a - weekNumber b"

definition get_weeks :: "string \<Rightarrow> store \<Rightarrow> Week list" where
  "get_weeks p_subjectId s =
     js_sort by_weekNumber (as_weeks (getByPrefix (''weeks:'' @ p_subjectId @ '':'') s))"

section \<open>Server: progress\<close>

record progress_body =
  b_weekId :: string
  b_completed :: "bool option"

text \<open>\<open>POST /progress\<close>\<close>

definition save_progress ::
  "env \<Rightarrow> string option \<Rightarrow> progress_body option \<Rightarrow> store \<Rightarrow> Progress response \<times> store" where
  "save_progress e header body s =
     (case authenticate e header of
        Inl r \<Rightarrow> (reply r, s)
      | Inr uid \<Rightarrow>
          (case body of
             None \<Rightarrow> (Failure 500 ''Failed to save progress'', s)
           | Some b \<Rightarrow>
               let progress = \<lparr>userId = uid,
                                weekId = b_weekId b,
                                completed = or_false (b_completed b),
                                lastAccessed = iso_now e\<rparr>
               in (Json progress,
                   kv_set (''progress:'' @ uid @ '':'' @ b_weekId b) (VProgress progress) s)))"

text \<open>\<open>GET /progress\<close>\<close>

definition get_progress ::
  "env \<Rightarrow> string option \<Rightarrow> store \<Rightarrow> kv_value list response" where
  "get_progress e header s =
     (case authenticate e header of
        Inl r \<Rightarrow> reply r
      | Inr uid \<Rightarrow> Json (getByPrefix (''progress:'' @ uid @ '':'') s))"

section \<open>Admin client (\<open>AdminDashboard.tsx\<close>)\<close>

text \<open>The state of the week form; its links are \<open>ContentItem\<close>s.\<close>

record weekForm =
  f_weekNumber :: int
  f_title :: string
  f_description :: string
  f_published :: bool
  f_videoLinks :: "ContentItem list"
  f_audioLinks :: "ContentItem list"
  f_pdfLinks :: "ContentItem list"
  f_questions :: "Question list"

text \<open>\<open>weekData\<close> of \<open>createOrUpdateWeek\<close>: the form, the selected subject's id, and
  the three link lists filtered with \<open>l => l.url.trim()\<close>. (An older copy of the
  dashboard among the sources keeps the links as bare strings and filters them with
  \<open>l => l.trim()\<close>.)\<close>

definition weekData :: "Subject \<Rightarrow> weekForm \<Rightarrow> week_body" where
  "weekData selectedSubject form =
     \<lparr>b_id = None,
      b_subjectId = Some (subject_id selectedSubject),
      b_weekNumber = Some (f_weekNumber form),
      b_title = Some (f_title form),
      b_description = Some (f_description form),
      b_published = Some (f_published form),
      b_videoLinks = Some (map Item (filter (\<lambda>l. truthy (trim (url l))) (f_videoLinks form))),
      b_audioLinks = Some (map Item (filter (\<lambda>l. truthy (trim (url l))) (f_audioLinks form))),
      b_pdfLinks = Some (map Item (filter (\<lambda>l. truthy (trim (url l))) (f_pdfLinks form))),
      b_questions = Some (f_questions form),
      b_createdAt = None\<rparr>"

text \<open>The header every admin request carries: \<open>`Bearer ${accessToken}`\<close>.\<close>

definition bearer :: "string \<Rightarrow> string option" where
  "bearer token = Some (''Bearer '' @ token)"

text \<open>\<open>createOrUpdateWeek\<close>: a \<open>PUT\<close> to the edited week when \<open>editingWeek\<close> is set,
  else a \<open>POST\<close>.\<close>

definition createOrUpdateWeek ::
  "env \<Rightarrow> string \<Rightarrow> Subject \<Rightarrow> Week option \<Rightarrow> weekForm \<Rightarrow> store \<Rightarrow> Week response \<times> store" where
  "createOrUpdateWeek e token selectedSubject editingWeek form s =
     (case editingWeek of
        Some w \<Rightarrow> update_week e (bearer token) (week_id w) (Some (weekData selectedSubject form)) s
      | None \<Rightarrow> create_week e (bearer token) (Some (weekData selectedSubject form)) s)"

text \<open>\<open>togglePublish\<close>: a \<open>PUT\<close> whose body is \<open>{ ...week, published: !week.published }\<close>,
  \<open>week\<close> being the week as the dashboard lists it.\<close>

definition toggle_body :: "Week \<Rightarrow> week_body" where
  "toggle_body week =
     \<lparr>b_id = Some (week_id week),
      b_subjectId = Some (subjectId week),
      b_weekNumber = Some (weekNumber week),
      b_title = Some (week_title week),
      b_description = description week,
      b_published = Some (\<not> published week),
      b_videoLinks = Some (videoLinks week),
      b_audioLinks = Some (audioLinks week),
      b_pdfLinks = Some (pdfLinks week),
      b_questions = Some (questions week),
      b_createdAt = Some (week_createdAt week)\<rparr>"

definition togglePublish :: "env \<Rightarrow> string \<Rightarrow> Week \<Rightarrow> store \<Rightarrow> Week response \<times> store" where
  "togglePublish e token week s =
     update_week e (bearer token) (week_id week) (Some (toggle_body week)) s"

section \<open>Student client (\<open>StudentDashboard.tsx\<close>)\<close>

text \<open>\<open>loadWeeks\<close>: the server's list, filtered to the published weeks and sorted
  again.\<close>

definition loadWeeks :: "string \<Rightarrow> store \<Rightarrow> Week list" where
  "loadWeeks p_subjectId s =
     js_sort by_weekNumber (filter published (get_weeks p_subjectId s))"

subsection \<open>Quiz scoring\<close>







subsection \<open>YouTube id extraction\<close>

text \<open>
  The regular expression of \<open>extractYouTubeId\<close> is matched the way a backtracking matcher
  does. A piece of the pattern is a function of its continuation: it consumes some input
  and hands the rest to the continuation, and when the continuation fails it tries its
  next way of matching. The result is the text of group 7, the only group the function
  reads.
\<close>

type_synonym cont = "string \<Rightarrow> string option"

text \<open>A literal text.\<close>

definition lit :: "string \<Rightarrow> cont \<Rightarrow> cont" where
  "lit w k s = (if prefix w s then k (drop (length w) s) else None)"

text \<open>One character of a class.\<close>

fun one :: "(char \<Rightarrow> bool) \<Rightarrow> cont \<Rightarrow> cont" where
  "one P k [] = None"
| "one P k (c # cs) = (if P c then k cs else None)"

text \<open>\<open>a|b\<close>: the left alternative first.\<close>

definition alt :: "(cont \<Rightarrow> cont) \<Rightarrow> (cont \<Rightarrow> cont) \<Rightarrow> cont \<Rightarrow> cont" where
  "alt a b k s = (case a k s of Some r \<Rightarrow> Some r | None \<Rightarrow> b k s)"

text \<open>\<open>a?\<close>, greedy: with \<open>a\<close> first, then without.\<close>

definition opt :: "(cont \<Rightarrow> cont) \<Rightarrow> cont \<Rightarrow> cont" where
  "opt a k s = (case a k s of Some r \<Rightarrow> Some r | None \<Rightarrow> k s)"

text \<open>\<open>[class]*\<close>, greedy: as many characters as possible first, then one fewer, and so
  on down to none.\<close>

fun star :: "(char \<Rightarrow> bool) \<Rightarrow> cont \<Rightarrow> cont" where
  "star P k [] = k []"
| "star P k (c # cs) =
     (if P c then (case star P k cs of Some r \<Rightarrow> Some r | None \<Rightarrow> k (c # cs))
      else k (c # cs))"

text \<open>A capturing group: the continuation also receives the text the group consumed.\<close>

definition capture :: "(cont \<Rightarrow> cont) \<Rightarrow> (string \<Rightarrow> cont) \<Rightarrow> cont" where
  "capture a k s = a (\<lambda>rest. k (take (length s - length rest) s) rest) s"

text \<open>The classes: \<open>.\<close> is any character but a line terminator, \<open>\w\<close> is a letter (codes 97
  to 122 and 65 to 90), a digit (48 to 57) or the underscore (95), and \<open>[^#&?]\<close>.\<close>

definition dot :: "char \<Rightarrow> bool" where
  "dot c = (c \<noteq> CHR 0x0A \<and> c \<noteq> CHR 0x0D)"

definition word_char :: "char \<Rightarrow> bool" where
  "word_char c =
     (let n = (of_char c :: nat)
      in (97 \<le> n \<and> n \<le> 122) \<or> (65 \<le> n \<and> n \<le> 90) \<or> (48 \<le> n \<and> n \<le> 57) \<or> n = 95)"

definition not_sep :: "char \<Rightarrow> bool" where
  "not_sep c = (c \<noteq> CHR ''#'' \<and> c \<noteq> CHR ''&'' \<and> c \<noteq> CHR ''?'')"

text \<open>\<open>((youtu.be\/)|(v\/)|(\/u\/\w\/)|(embed\/)|(watch\?))\<close>\<close>

definition markers :: "cont \<Rightarrow> cont" where
  "markers =
     alt (lit ''youtu'' \<circ> one dot \<circ> lit ''be/'')
       (alt (lit ''v/'')
          (alt (lit ''/u/'' \<circ> one word_char \<circ> lit ''/'')
             (alt (lit ''embed/'') (lit ''watch?''))))"

text \<open>\<open>/^.*((youtu.be\/)|(v\/)|(\/u\/\w\/)|(embed\/)|(watch\?))\??v?=?([^#&?]*).*/\<close>. The
  pattern starts with \<open>^\<close>, so the only match \<open>url.match\<close> can find starts at the first
  character. The value is \<open>match[7]\<close>, or \<open>None\<close> when \<open>match\<close> is \<open>null\<close>.\<close>

definition regExp :: cont where
  "regExp =
     star dot
       (markers
          (opt (lit ''?'')
             (opt (lit ''v'')
                (opt (lit ''='')
                   (capture (star not_sep) (\<lambda>group7. star dot (\<lambda>rest. Some group7)))))))"

text \<open>\<open>match && match[7].length === 11 ? match[7] : null\<close>\<close>

definition extractYouTubeId :: "string \<Rightarrow> string option" where
  "extractYouTubeId url' =
     (case regExp url' of
        None \<Rightarrow> None
      | Some group7 \<Rightarrow> if length group7 = 11 then Some group7 else None)"

text \<open>\<open>getContentUrl\<close>\<close>

fun getContentUrl :: "link \<Rightarrow> string" where
  "getContentUrl (Bare item) = item"
| "getContentUrl (Item item) = url item"

section \<open>Notions the properties are stated with\<close>

text \<open>The keys the handlers build.\<close>

definition subject_key :: "string \<Rightarrow> string" where
  "subject_key p_subjectId = ''subjects:'' @ p_subjectId"

definition week_prefix :: "string \<Rightarrow> string" where
  "week_prefix p_subjectId = ''weeks:'' @ p_subjectId @ '':''"

definition week_key :: "string \<Rightarrow> string \<Rightarrow> string" where
  "week_key p_subjectId p_weekId = ''weeks:'' @ p_subjectId @ '':'' @ p_weekId"

definition progress_key :: "string \<Rightarrow> string \<Rightarrow> string" where
  "progress_key uid p_weekId = ''progress:'' @ uid @ '':'' @ p_weekId"

text \<open>
  The handlers rebuild a key from the properties of the value stored under it. These
  predicates say that the entries of a store agree with that: what lies under a
  subject's week prefix is a week stored under the key of its own \<open>id\<close>, as
  \<open>create_week\<close> stores it; a subject lies under the key of its \<open>id\<close>, as
  \<open>create_subject\<close> stores it; a progress record lies under the key of its \<open>userId\<close>
  and \<open>weekId\<close>, as \<open>save_progress\<close> stores it.
\<close>

fun week_entry_keyed :: "string \<Rightarrow> string \<times> kv_value \<Rightarrow> bool" where
  "week_entry_keyed p_subjectId (k, VWeek w) = (k = week_key p_subjectId (week_id w))"
| "week_entry_keyed p_subjectId (k, v) = False"

definition weeks_keyed :: "string \<Rightarrow> store \<Rightarrow> bool" where
  "weeks_keyed p_subjectId s =
     list_all (\<lambda>entry. prefix (week_prefix p_subjectId) (fst entry)
                 \<longrightarrow> week_entry_keyed p_subjectId entry) s"

fun subject_entry_keyed :: "string \<times> kv_value \<Rightarrow> bool" where
  "subject_entry_keyed (k, VSubject x) = (k = subject_key (subject_id x))"
| "subject_entry_keyed (k, v) = True"

definition subjects_keyed :: "store \<Rightarrow> bool" where
  "subjects_keyed s = list_all subject_entry_keyed s"

fun progress_entry_keyed :: "string \<times> kv_value \<Rightarrow> bool" where
  "progress_entry_keyed (k, VProgress p) = (k = progress_key (userId p) (weekId p))"
| "progress_entry_keyed (k, v) = True"

definition progress_keyed :: "store \<Rightarrow> bool" where
  "progress_keyed s = list_all progress_entry_keyed s"

text \<open>The progress records of a scan that belong to a student and a week.\<close>

fun is_progress_of :: "string \<Rightarrow> string \<Rightarrow> kv_value \<Rightarrow> bool" where
  "is_progress_of uid p_weekId (VProgress p) = (userId p = uid \<and> weekId p = p_weekId)"
| "is_progress_of uid p_weekId v = False"

text \<open>The ids of the weeks in a store.\<close>

definition week_ids :: "store \<Rightarrow> string list" where
  "week_ids s = map week_id (as_weeks (getByPrefix ''weeks:'' s))"

text \<open>
  What the pattern of \<open>extractYouTubeId\<close> accepts, said without a matcher. A marker is a
  text one of the five alternatives of the first group matches. After a marker the
  pattern skips one \<open>?\<close>, one \<open>v\<close> and one \<open>=\<close>, each if present, and the token is
  what follows up to the first \<open>#\<close>, \<open>&\<close> or \<open>?\<close>.
\<close>

definition is_marker :: "string \<Rightarrow> bool" where
  "is_marker m =
     ((\<exists>c. dot c \<and> m = ''youtu'' @ [c] @ ''be/'') \<or> m = ''v/''
      \<or> (\<exists>c. word_char c \<and> m = ''/u/'' @ [c] @ ''/'') \<or> m = ''embed/'' \<or> m = ''watch?'')"

fun skip :: "char \<Rightarrow> string \<Rightarrow> string" where
  "skip c [] = []"
| "skip c (x # xs) = (if x = c then xs else x # xs)"

definition token_after :: "string \<Rightarrow> string" where
  "token_after rest =
     takeWhile not_sep (skip CHR ''='' (skip CHR ''v'' (skip CHR ''?'' rest)))"

text \<open>The last marker of a URL: a marker \<open>m\<close> after a text \<open>pre\<close> without a line
  terminator, such that no marker starts later after such a text.\<close>

definition last_marker :: "string \<Rightarrow> string \<Rightarrow> string \<Rightarrow> string \<Rightarrow> bool" where
  "last_marker url' pre m rest =
     (url' = pre @ m @ rest \<and> list_all dot pre \<and> is_marker m
      \<and> (\<forall>pre' m' rest'. url' = pre' @ m' @ rest' \<and> length pre < length pre'
             \<and> list_all dot pre' \<longrightarrow> \<not> is_marker m'))"

text \<open>
  The accepted forms as the specification lists them, \<open>youtu.be/<id>\<close>, \<open>/v/<id>\<close>,
  \<open>embed/<id>\<close> and \<open>?v=<id>\<close>: somewhere in the URL stands the text of a form with the
  token right after it.
\<close>

definition spec_accepted_form :: "string \<Rightarrow> string \<Rightarrow> bool" where
  "spec_accepted_form url' tok =
     (sublist (''youtu.be/'' @ tok) url' \<or> sublist (''/v/'' @ tok) url'
      \<or> sublist (''embed/'' @ tok) url' \<or> sublist (''?v='' @ tok) url')"

section \<open>Sample data\<close>

text \<open>An identity provider that knows two tokens, and a store with the two profiles.\<close>

definition sample_env :: env where
  "sample_env =
     \<lparr>getUser = (\<lambda>token. if token = ''ta'' then Some ''ua''
                         else if token = ''ts'' then Some ''us'' else None),
      id_stamp = ''17_k3j9'',
      iso_now = ''2024-01-01''\<rparr>"

definition later_env :: env where
  "later_env = sample_env\<lparr>id_stamp := ''18_p0q1'', iso_now := ''2024-01-02''\<rparr>"

definition sample_store :: store where
  "sample_store =
     [(''users:ua'', VProfile \<lparr>profile_id = ''ua'', email = ''a@x.org'', profile_name = ''Ada'',
                              role = ''admin'', profile_createdAt = ''2023-12-01''\<rparr>),
      (''users:us'', VProfile \<lparr>profile_id = ''us'', email = ''s@x.org'', profile_name = ''Sam'',
                              role = ''student'', profile_createdAt = ''2023-12-02''\<rparr>)]"

definition sample_week_body :: week_body where
  "sample_week_body =
     \<lparr>b_id = None, b_subjectId = Some ''S'', b_weekNumber = Some 1, b_title = Some ''T'',
      b_description = None, b_published = Some False,
      b_videoLinks = Some [Item \<lparr>url = ''  '', title = None\<rparr>,
                           Item \<lparr>url = ''http://x'', title = None\<rparr>],
      b_audioLinks = None, b_pdfLinks = None, b_questions = None, b_createdAt = None\<rparr>"

text \<open>The week \<open>create_week\<close> stores for \<open>sample_week_body\<close>, and the store with it.\<close>

definition sample_week :: Week where
  "sample_week =
     \<lparr>week_id = ''week_17_k3j9'', subjectId = ''S'', weekNumber = 1, week_title = ''T'',
      description = None, published = False,
      videoLinks = [Item \<lparr>url = ''  '', title = None\<rparr>, Item \<lparr>url = ''http://x'', title = None\<rparr>],
      audioLinks = [], pdfLinks = [], questions = [], week_createdAt = ''2024-01-01''\<rparr>"

definition week_store :: store where
  "week_store = sample_store @ [(''weeks:S:week_17_k3j9'', VWeek sample_week)]"

text \<open>The store with the sample week and its subject.\<close>

definition subject_store :: store where
  "subject_store =
     week_store @ [(''subjects:S'', VSubject \<lparr>subject_id = ''S'', subject_name = ''Maths'',
                                             subject_description = [],
                                             subject_createdAt = ''2023-12-03''\<rparr>)]"

text \<open>Update bodies: a new title only, a new subject id only, a new id only.\<close>

definition no_updates :: week_body where
  "no_updates =
     \<lparr>b_id = None, b_subjectId = None, b_weekNumber = None, b_title = None,
      b_description = None, b_published = None, b_videoLinks = None, b_audioLinks = None,
      b_pdfLinks = None, b_questions = None, b_createdAt = None\<rparr>"

definition title_update :: week_body where
  "title_update = no_updates\<lparr>b_title := Some ''T2''\<rparr>"

definition subject_update :: week_body where
  "subject_update = no_updates\<lparr>b_subjectId := Some ''S2''\<rparr>"

definition id_update :: week_body where
  "id_update = no_updates\<lparr>b_id := Some ''other''\<rparr>"

definition sample_subject :: Subject where
  "sample_subject =
     \<lparr>subject_id = ''S'', subject_name = ''Maths'', subject_description = [],
      subject_createdAt = ''2023-12-03''\<rparr>"

definition sample_form :: weekForm where
  "sample_form =
     \<lparr>f_weekNumber = 1, f_title = ''T'', f_description = [], f_published = False,
      f_videoLinks = [\<lparr>url = ''  '', title = Some []\<rparr>, \<lparr>url = ''http://x'', title = Some []\<rparr>],
      f_audioLinks = [\<lparr>url = [], title = Some []\<rparr>],
      f_pdfLinks = [\<lparr>url = [], title = Some []\<rparr>],
      f_questions = []\<rparr>"







text \<open>The store after the sample week's \<open>subjectId\<close> was updated to \<open>S2\<close>: the week
  still lies under \<open>weeks:S:\<close>.\<close>

definition moved_store :: store where
  "moved_store =
     sample_store @ [(''weeks:S:week_17_k3j9'', VWeek (sample_week\<lparr>subjectId := ''S2''\<rparr>))]"

section \<open>The key-value store\<close>

lemma kv_get_del: "kv_get k' (kv_del k s) = (if k' = k then None else kv_get k' s)"
  unfolding kv_get_def kv_del_def
  by (induction s) auto

lemma kv_get_set: "kv_get k' (kv_set k v s) = (if k' = k then Some v else kv_get k' s)"
proof (cases "k' = k")
  case True
  have "map_of (kv_del k s) k = None"
    using kv_get_del [of k k s] by (simp add: kv_get_def)
  then show ?thesis
    using True by (simp add: kv_get_def kv_set_def map_add_def split: option.splits)
next
  case False
  have "map_of (kv_del k s) k' = map_of s k'"
    using kv_get_del [of k' k s] False by (simp add: kv_get_def)
  then show ?thesis
    using False by (simp add: kv_get_def kv_set_def map_add_def split: option.splits)
qed

section \<open>Listing the weeks of a subject\<close>

lemma insert_cmp_by_weekNumber:
  "insert_cmp by_weekNumber x ys = insort_key weekNumber x ys"
  by (induction ys) (simp_all add: by_weekNumber_def)

lemma js_sort_by_weekNumber: "js_sort by_weekNumber xs = sort_key weekNumber xs"
  unfolding js_sort_def
  by (induction xs) (simp_all add: insert_cmp_by_weekNumber)

text \<open>
  Claim C3. For every subject id, the list \<open>GET /weeks/:subjectId\<close> returns is sorted in
  ascending order of \<open>weekNumber\<close>, and the sort is stable: for every week number, the
  weeks with that number come in the order the prefix scan returned them. Equal week
  numbers are no error, and the list has as many weeks as the scan.
\<close>

theorem get_weeks_sorted_stable:
  "sorted (map weekNumber (get_weeks p_subjectId s))
   \<and> (\<forall>n. filter (\<lambda>w. weekNumber w = n) (get_weeks p_subjectId s)
          = filter (\<lambda>w. weekNumber w = n)
              (as_weeks (getByPrefix (''weeks:'' @ p_subjectId @ '':'') s)))
   \<and> length (get_weeks p_subjectId s)
       = length (as_weeks (getByPrefix (''weeks:'' @ p_subjectId @ '':'') s))"
  unfolding get_weeks_def js_sort_by_weekNumber
  by (simp add: sort_key_stable)

section \<open>Quiz scoring\<close>










section \<open>Authorization of the admin handlers\<close>

lemma require_admin_401:
  "\<not> truthy_opt (accessToken header)
     \<or> (\<exists>token. accessToken header = Some token \<and> getUser e token = None)
   \<Longrightarrow> require_admin e header s = Inl (Reject 401 ''Unauthorized'')"
  by (auto simp: require_admin_def authenticate_def split: option.splits)

lemma require_admin_403:
  "accessToken header = Some token \<Longrightarrow> truthy token \<Longrightarrow> getUser e token = Some uid
   \<Longrightarrow> \<not> is_admin (kv_get (''users:'' @ uid) s)
   \<Longrightarrow> require_admin e header s = Inl (Reject 403 ''Admin access required'')"
  by (simp add: require_admin_def authenticate_def)

text \<open>
  Claim C6. Each of the five admin handlers (create and delete subject, create, update and
  delete week) answers 401 when the bearer token is missing or the identity provider
  does not verify it, and 403 when the token is verified and the caller's profile is
  absent or its role is not \<open>admin\<close>; in both cases the response is that status with
  a fixed message and the store is returned unchanged.
\<close>

theorem admin_gate:
  "(\<not> truthy_opt (accessToken header)
      \<or> (\<exists>token. accessToken header = Some token \<and> getUser e token = None)
    \<longrightarrow> create_subject e header sb s = (Failure 401 ''Unauthorized'', s)
        \<and> delete_subject e header p_subjectId s = (Failure 401 ''Unauthorized'', s)
        \<and> create_week e header wb s = (Failure 401 ''Unauthorized'', s)
        \<and> update_week e header p_weekId wb s = (Failure 401 ''Unauthorized'', s)
        \<and> delete_week e header p_weekId s = (Failure 401 ''Unauthorized'', s))
   \<and> ((\<exists>token uid. accessToken header = Some token \<and> truthy token
          \<and> getUser e token = Some uid \<and> \<not> is_admin (kv_get (''users:'' @ uid) s))
    \<longrightarrow> create_subject e header sb s = (Failure 403 ''Admin access required'', s)
        \<and> delete_subject e header p_subjectId s = (Failure 403 ''Admin access required'', s)
        \<and> create_week e header wb s = (Failure 403 ''Admin access required'', s)
        \<and> update_week e header p_weekId wb s = (Failure 403 ''Admin access required'', s)
        \<and> delete_week e header p_weekId s = (Failure 403 ''Admin access required'', s))"
proof (intro conjI impI)
  assume "\<not> truthy_opt (accessToken header)
      \<or> (\<exists>token. accessToken header = Some token \<and> getUser e token = None)"
  then have r: "require_admin e header s = Inl (Reject 401 ''Unauthorized'')"
    by (rule require_admin_401)
  show "create_subject e header sb s = (Failure 401 ''Unauthorized'', s)"
    by (simp add: create_subject_def r)
  show "delete_subject e header p_subjectId s = (Failure 401 ''Unauthorized'', s)"
    by (simp add: delete_subject_def r)
  show "create_week e header wb s = (Failure 401 ''Unauthorized'', s)"
    by (simp add: create_week_def r)
  show "update_week e header p_weekId wb s = (Failure 401 ''Unauthorized'', s)"
    by (simp add: update_week_def r)
  show "delete_week e header p_weekId s = (Failure 401 ''Unauthorized'', s)"
    by (simp add: delete_week_def r)
next
  assume "\<exists>token uid. accessToken header = Some token \<and> truthy token
          \<and> getUser e token = Some uid \<and> \<not> is_admin (kv_get (''users:'' @ uid) s)"
  then have r: "require_admin e header s = Inl (Reject 403 ''Admin access required'')"
    by (auto intro: require_admin_403)
  show "create_subject e header sb s = (Failure 403 ''Admin access required'', s)"
    by (simp add: create_subject_def r)
  show "delete_subject e header p_subjectId s = (Failure 403 ''Admin access required'', s)"
    by (simp add: delete_subject_def r)
  show "create_week e header wb s = (Failure 403 ''Admin access required'', s)"
    by (simp add: create_week_def r)
  show "update_week e header p_weekId wb s = (Failure 403 ''Admin access required'', s)"
    by (simp add: update_week_def r)
  show "delete_week e header p_weekId s = (Failure 403 ''Admin access required'', s)"
    by (simp add: delete_week_def r)
qed

text \<open>No header gives 401, the student's token gives 403.\<close>

theorem admin_gate_witness:
  "accessToken None = None
   \<and> create_subject sample_env None None sample_store = (Failure 401 ''Unauthorized'', sample_store)
   \<and> update_week sample_env None ''w'' (Some sample_week_body) sample_store
       = (Failure 401 ''Unauthorized'', sample_store)
   \<and> accessToken (bearer ''ts'') = Some ''ts'' \<and> getUser sample_env ''ts'' = Some ''us''
   \<and> \<not> is_admin (kv_get (''users:'' @ ''us'') sample_store)
   \<and> create_week sample_env (bearer ''ts'') (Some sample_week_body) sample_store
       = (Failure 403 ''Admin access required'', sample_store)
   \<and> delete_subject sample_env (bearer ''ts'') ''S'' sample_store
       = (Failure 403 ''Admin access required'', sample_store)"
proof -
  have a: "accessToken None = None"
    by (simp add: accessToken_def)
  have b: "accessToken (bearer ''ts'') = Some ''ts''"
    by (simp add: accessToken_def bearer_def)
  have c: "getUser sample_env ''ts'' = Some ''us''"
    by (simp add: sample_env_def)
  have d: "\<not> is_admin (kv_get (''users:'' @ ''us'') sample_store)"
    by (simp add: is_admin_def kv_get_def sample_store_def)
  from a have h1: "\<not> truthy_opt (accessToken None)
      \<or> (\<exists>token. accessToken None = Some token \<and> getUser sample_env token = None)"
    by simp
  from b c d have h2: "\<exists>token uid. accessToken (bearer ''ts'') = Some token \<and> truthy token
          \<and> getUser sample_env token = Some uid
          \<and> \<not> is_admin (kv_get (''users:'' @ uid) sample_store)"
    by (auto simp: truthy_def)
  show ?thesis
    using a b c d h1 h2
      admin_gate [of None sample_env None sample_store "''S''" "Some sample_week_body" "''w''"]
      admin_gate [of "bearer ''ts''" sample_env None sample_store "''S''" "Some sample_week_body" "''w''"]
    by simp
qed

section \<open>Progress records\<close>

lemma getByPrefix_append: "getByPrefix p (xs @ ys) = getByPrefix p xs @ getByPrefix p ys"
  by (simp add: getByPrefix_def)

lemma progress_none_left:
  assumes "progress_keyed s"
  shows "filter (is_progress_of uid w) (getByPrefix p (kv_del (progress_key uid w) s)) = []"
proof -
  have "\<not> is_progress_of uid w (snd entry)"
    if "entry \<in> set s" and "fst entry \<noteq> progress_key uid w" for entry
  proof
    assume h: "is_progress_of uid w (snd entry)"
    then obtain p where p: "snd entry = VProgress p" "userId p = uid" "weekId p = w"
      by (cases "snd entry") auto
    from assms that(1) have "progress_entry_keyed entry"
      by (simp add: progress_keyed_def list_all_iff)
    with p have "fst entry = progress_key uid w"
      by (cases entry) auto
    with that(2) show False by simp
  qed
  then show ?thesis
    by (auto simp: filter_empty_conv getByPrefix_def kv_del_def)
qed

lemma progress_keyed_del: "progress_keyed s \<Longrightarrow> progress_keyed (kv_del k s)"
  by (simp add: progress_keyed_def kv_del_def list_all_iff)

lemma progress_keyed_set:
  "progress_keyed s \<Longrightarrow> progress_entry_keyed (k, v) \<Longrightarrow> progress_keyed (kv_set k v s)"
  by (simp add: progress_keyed_def kv_set_def kv_del_def list_all_iff)

lemma filter_key_set: "filter (\<lambda>entry. fst entry = k) (kv_set k v s) = [(k, v)]"
  by (simp add: kv_set_def kv_del_def filter_empty_conv)

text \<open>
  Claim C5. Saving progress is an upsert keyed by the student and the week, and the last
  write wins: after two calls of one student for one week, the second with
  \<open>completed\<close> flag \<open>c2\<close> (the claim's instance: first \<open>false\<close>, then \<open>true\<close>),
  the store holds exactly one entry under the progress key and the student's progress
  listing holds exactly one record for that student and week; it carries the second
  call's flag, and its \<open>lastAccessed\<close> is the time of the second call, whether or not
  the flag changed. The first call's record carries the first call's time.
\<close>

theorem progress_upsert:
  assumes auth: "authenticate e header = Inr uid" "authenticate e' header = Inr uid"
    and keyed: "progress_keyed s"
    and first: "save_progress e header (Some \<lparr>b_weekId = w, b_completed = c1\<rparr>) s = (r1, s1)"
    and second: "save_progress e' header (Some \<lparr>b_weekId = w, b_completed = c2\<rparr>) s1 = (r2, s2)"
  shows "r1 = Json \<lparr>userId = uid, weekId = w, completed = or_false c1, lastAccessed = iso_now e\<rparr>
       \<and> kv_get (progress_key uid w) s1
           = Some (VProgress \<lparr>userId = uid, weekId = w, completed = or_false c1,
                               lastAccessed = iso_now e\<rparr>)
       \<and> r2 = Json \<lparr>userId = uid, weekId = w, completed = or_false c2, lastAccessed = iso_now e'\<rparr>
       \<and> filter (\<lambda>entry. fst entry = progress_key uid w) s2
           = [(progress_key uid w,
               VProgress \<lparr>userId = uid, weekId = w, completed = or_false c2,
                           lastAccessed = iso_now e'\<rparr>)]
       \<and> get_progress e' header s2 = Json (getByPrefix (''progress:'' @ uid @ '':'') s2)
       \<and> filter (is_progress_of uid w) (getByPrefix (''progress:'' @ uid @ '':'') s2)
           = [VProgress \<lparr>userId = uid, weekId = w, completed = or_false c2,
                          lastAccessed = iso_now e'\<rparr>]"
proof -
  let ?k = "progress_key uid w"
  let ?p1 = "\<lparr>userId = uid, weekId = w, completed = or_false c1, lastAccessed = iso_now e\<rparr>"
  let ?p2 = "\<lparr>userId = uid, weekId = w, completed = or_false c2, lastAccessed = iso_now e'\<rparr>"
  from first have r1: "r1 = Json ?p1" and s1: "s1 = kv_set ?k (VProgress ?p1) s"
    by (auto simp: save_progress_def progress_key_def auth Let_def)
  from second have r2: "r2 = Json ?p2" and s2: "s2 = kv_set ?k (VProgress ?p2) s1"
    by (auto simp: save_progress_def progress_key_def auth Let_def)
  have k1: "progress_keyed s1"
    unfolding s1 using keyed by (intro progress_keyed_set) simp_all
  have one: "filter (\<lambda>entry. fst entry = ?k) s2 = [(?k, VProgress ?p2)]"
    unfolding s2 by (rule filter_key_set)
  have pre: "prefix (''progress:'' @ uid @ '':'') ?k"
    by (simp add: progress_key_def)
  have "filter (is_progress_of uid w) (getByPrefix (''progress:'' @ uid @ '':'') s2)
          = filter (is_progress_of uid w)
              (getByPrefix (''progress:'' @ uid @ '':'') (kv_del ?k s1)) @ [VProgress ?p2]"
    unfolding s2 kv_set_def getByPrefix_append using pre by (simp add: getByPrefix_def)
  with progress_none_left [OF k1] have lst:
    "filter (is_progress_of uid w) (getByPrefix (''progress:'' @ uid @ '':'') s2) = [VProgress ?p2]"
    by simp
  have gp: "get_progress e' header s2 = Json (getByPrefix (''progress:'' @ uid @ '':'') s2)"
    by (simp add: get_progress_def auth)
  show ?thesis
    using r1 r2 one lst gp by (simp add: s1 kv_get_set)
qed

text \<open>The student saves week \<open>w1\<close> as not completed, later as completed.\<close>

theorem progress_upsert_witness:
  "authenticate sample_env (bearer ''ts'') = Inr ''us''
   \<and> authenticate later_env (bearer ''ts'') = Inr ''us''
   \<and> progress_keyed sample_store
   \<and> filter (is_progress_of ''us'' ''w1'')
        (getByPrefix ''progress:us:''
           (snd (save_progress later_env (bearer ''ts'') (Some \<lparr>b_weekId = ''w1'', b_completed = Some True\<rparr>)
              (snd (save_progress sample_env (bearer ''ts'')
                 (Some \<lparr>b_weekId = ''w1'', b_completed = Some False\<rparr>) sample_store)))))
       = [VProgress \<lparr>userId = ''us'', weekId = ''w1'', completed = True, lastAccessed = ''2024-01-02''\<rparr>]"
proof -
  have a1: "authenticate sample_env (bearer ''ts'') = Inr ''us''"
    by (simp add: authenticate_def accessToken_def bearer_def sample_env_def truthy_def)
  have a2: "authenticate later_env (bearer ''ts'') = Inr ''us''"
    by (simp add: authenticate_def accessToken_def bearer_def sample_env_def later_env_def truthy_def)
  have k: "progress_keyed sample_store"
    by (simp add: progress_keyed_def sample_store_def)
  have t: "iso_now later_env = ''2024-01-02''"
    by (simp add: later_env_def)
  show ?thesis
    using a1 a2 k t
      progress_upsert [where w = "''w1''" and ?c1.0 = "Some False" and ?c2.0 = "Some True",
        OF a1 a2 k surjective_pairing surjective_pairing]
    by simp
qed

section \<open>Updating a week\<close>

lemma as_weeks_append: "as_weeks (xs @ ys) = as_weeks xs @ as_weeks ys"
  by (induction xs rule: as_weeks.induct) simp_all

lemma set_js_sort_by_weekNumber: "set (js_sort by_weekNumber xs) = set xs"
  by (simp add: js_sort_by_weekNumber)

lemma update_week_found:
  assumes "require_admin e header s = Inr uid"
    and "find (\<lambda>w. week_id w = p_weekId) (as_weeks (getByPrefix ''weeks:'' s)) = Some week"
  shows "update_week e header p_weekId (Some updates) s =
           (Json (spread week updates),
            kv_set (week_key (subjectId week) p_weekId) (VWeek (spread week updates)) s)"
  using assms by (simp add: update_week_def week_key_def Let_def)

text \<open>
  Claim C9. \<open>update_week\<close> merges the update body over the stored week, property by
  property: for an admin caller, the week found under the addressed id and any update
  body, the week returned and stored has, for each of its properties, the body's value
  when the body has the property (a whole array such as \<open>videoLinks\<close> or \<open>questions\<close>
  replaces the stored one) and the stored value when it has not; no other key of the
  store changes.
\<close>

theorem update_week_shallow_merge:
  assumes admin: "require_admin e header s = Inr uid"
    and found: "find (\<lambda>w. week_id w = p_weekId) (as_weeks (getByPrefix ''weeks:'' s)) = Some week"
    and upd: "update_week e header p_weekId (Some updates) s = (r, s')"
  shows "\<exists>w'. r = Json w'
       \<and> kv_get (week_key (subjectId week) p_weekId) s' = Some (VWeek w')
       \<and> week_id w' = (case b_id updates of Some x \<Rightarrow> x | None \<Rightarrow> week_id week)
       \<and> subjectId w' = (case b_subjectId updates of Some x \<Rightarrow> x | None \<Rightarrow> subjectId week)
       \<and> weekNumber w' = (case b_weekNumber updates of Some x \<Rightarrow> x | None \<Rightarrow> weekNumber week)
       \<and> week_title w' = (case b_title updates of Some x \<Rightarrow> x | None \<Rightarrow> week_title week)
       \<and> description w' = (case b_description updates of Some x \<Rightarrow> Some x | None \<Rightarrow> description week)
       \<and> published w' = (case b_published updates of Some x \<Rightarrow> x | None \<Rightarrow> published week)
       \<and> videoLinks w' = (case b_videoLinks updates of Some x \<Rightarrow> x | None \<Rightarrow> videoLinks week)
       \<and> audioLinks w' = (case b_audioLinks updates of Some x \<Rightarrow> x | None \<Rightarrow> audioLinks week)
       \<and> pdfLinks w' = (case b_pdfLinks updates of Some x \<Rightarrow> x | None \<Rightarrow> pdfLinks week)
       \<and> questions w' = (case b_questions updates of Some x \<Rightarrow> x | None \<Rightarrow> questions week)
       \<and> week_createdAt w' = (case b_createdAt updates of Some x \<Rightarrow> x | None \<Rightarrow> week_createdAt week)
       \<and> (\<forall>k. k \<noteq> week_key (subjectId week) p_weekId \<longrightarrow> kv_get k s' = kv_get k s)"
proof -
  from upd update_week_found [OF admin found, of updates]
  have r: "r = Json (spread week updates)"
    and s': "s' = kv_set (week_key (subjectId week) p_weekId) (VWeek (spread week updates)) s"
    by simp_all
  have fields: "week_id (spread week updates) = (case b_id updates of Some x \<Rightarrow> x | None \<Rightarrow> week_id week)"
    "subjectId (spread week updates) = (case b_subjectId updates of Some x \<Rightarrow> x | None \<Rightarrow> subjectId week)"
    "weekNumber (spread week updates) = (case b_weekNumber updates of Some x \<Rightarrow> x | None \<Rightarrow> weekNumber week)"
    "week_title (spread week updates) = (case b_title updates of Some x \<Rightarrow> x | None \<Rightarrow> week_title week)"
    "description (spread week updates) = (case b_description updates of Some x \<Rightarrow> Some x | None \<Rightarrow> description week)"
    "published (spread week updates) = (case b_published updates of Some x \<Rightarrow> x | None \<Rightarrow> published week)"
    "videoLinks (spread week updates) = (case b_videoLinks updates of Some x \<Rightarrow> x | None \<Rightarrow> videoLinks week)"
    "audioLinks (spread week updates) = (case b_audioLinks updates of Some x \<Rightarrow> x | None \<Rightarrow> audioLinks week)"
    "pdfLinks (spread week updates) = (case b_pdfLinks updates of Some x \<Rightarrow> x | None \<Rightarrow> pdfLinks week)"
    "questions (spread week updates) = (case b_questions updates of Some x \<Rightarrow> x | None \<Rightarrow> questions week)"
    "week_createdAt (spread week updates) = (case b_createdAt updates of Some x \<Rightarrow> x | None \<Rightarrow> week_createdAt week)"
    by (simp_all add: spread_def split: option.splits)
  have frame: "\<forall>k. k \<noteq> week_key (subjectId week) p_weekId \<longrightarrow> kv_get k s' = kv_get k s"
    by (simp add: s' kv_get_set)
  have stored: "kv_get (week_key (subjectId week) p_weekId) s' = Some (VWeek (spread week updates))"
    by (simp add: s' kv_get_set)
  show ?thesis
    using r stored fields frame by blast
qed

lemma admin_bearer_ta: "require_admin sample_env (bearer ''ta'') week_store = Inr ''ua''"
  by (simp add: require_admin_def authenticate_def accessToken_def bearer_def sample_env_def
      truthy_def is_admin_def kv_get_def week_store_def sample_store_def)

lemma find_sample_week:
  "find (\<lambda>w. week_id w = ''week_17_k3j9'') (as_weeks (getByPrefix ''weeks:'' week_store))
     = Some sample_week"
  by (simp add: getByPrefix_def week_store_def sample_store_def sample_week_def)

text \<open>An update that carries only a title changes the title and keeps the links and
  the published flag.\<close>

theorem update_week_shallow_merge_witness:
  "require_admin sample_env (bearer ''ta'') week_store = Inr ''ua''
   \<and> find (\<lambda>w. week_id w = ''week_17_k3j9'') (as_weeks (getByPrefix ''weeks:'' week_store))
       = Some sample_week
   \<and> (\<exists>w'. fst (update_week sample_env (bearer ''ta'') ''week_17_k3j9'' (Some title_update) week_store)
            = Json w'
          \<and> week_title w' = ''T2'' \<and> videoLinks w' = videoLinks sample_week
          \<and> published w' = published sample_week)"
  using admin_bearer_ta find_sample_week
    update_week_shallow_merge [OF admin_bearer_ta find_sample_week surjective_pairing,
      of title_update]
  by (auto simp: title_update_def no_updates_def)


lemma keys_kv_set: "set (map fst (kv_set k v s)) = insert k (set (map fst s))"
  by (auto simp: kv_set_def kv_del_def)

lemma kv_get_Some_key: "kv_get k s = Some v \<Longrightarrow> k \<in> set (map fst s)"
  unfolding kv_get_def by (metis map_of_eq_None_iff option.distinct(1) set_map)

lemma week_key_inject: "week_key a w = week_key b w \<longleftrightarrow> a = b"
  by (simp add: week_key_def)

lemma listed_after_set:
  "w \<in> set (get_weeks p_subjectId (kv_set (week_key p_subjectId p_weekId) (VWeek w) s))"
  by (simp add: get_weeks_def set_js_sort_by_weekNumber kv_set_def getByPrefix_append
      as_weeks_append getByPrefix_def week_key_def)

text \<open>
  Against claim C10 as stated: \<open>update_week\<close> can change the key a week is stored
  under. The claim's own update gives the sample week the \<open>subjectId\<close> \<open>S2\<close> and
  leaves it under \<open>weeks:S:\<close>. The next update, of the title only, builds its key from
  the stored \<open>subjectId\<close>: the merged week is written under \<open>weeks:S2:\<close>, a key that
  did not exist, and the listing of subject \<open>S\<close> keeps the week with the old title.
\<close>

theorem update_week_after_move:
  "update_week sample_env (bearer ''ta'') ''week_17_k3j9'' (Some subject_update) week_store
     = (Json (sample_week\<lparr>subjectId := ''S2''\<rparr>), moved_store)
   \<and> kv_get ''weeks:S2:week_17_k3j9'' moved_store = None
   \<and> update_week sample_env (bearer ''ta'') ''week_17_k3j9'' (Some title_update) moved_store
     = (Json (sample_week\<lparr>subjectId := ''S2'', week_title := ''T2''\<rparr>),
        moved_store @ [(''weeks:S2:week_17_k3j9'',
                        VWeek (sample_week\<lparr>subjectId := ''S2'', week_title := ''T2''\<rparr>))])
   \<and> get_weeks ''S''
        (moved_store @ [(''weeks:S2:week_17_k3j9'',
                         VWeek (sample_week\<lparr>subjectId := ''S2'', week_title := ''T2''\<rparr>))])
     = [sample_week\<lparr>subjectId := ''S2''\<rparr>]"
proof -
  let ?w1 = "sample_week\<lparr>subjectId := ''S2''\<rparr>"
  let ?w2 = "sample_week\<lparr>subjectId := ''S2'', week_title := ''T2''\<rparr>"
  let ?s2 = "moved_store @ [(''weeks:S2:week_17_k3j9'', VWeek ?w2)]"
  have sp1: "spread sample_week subject_update = ?w1"
    by (simp add: spread_def subject_update_def no_updates_def sample_week_def)
  have u1: "update_week sample_env (bearer ''ta'') ''week_17_k3j9'' (Some subject_update) week_store
     = (Json ?w1, moved_store)"
    by (simp add: update_week_found [OF admin_bearer_ta find_sample_week] sp1)
       (simp add: week_key_def sample_week_def kv_set_def kv_del_def week_store_def
          moved_store_def sample_store_def)
  have none: "kv_get ''weeks:S2:week_17_k3j9'' moved_store = None"
    by (simp add: kv_get_def moved_store_def sample_store_def)
  have a: "require_admin sample_env (bearer ''ta'') moved_store = Inr ''ua''"
    by (simp add: require_admin_def authenticate_def accessToken_def bearer_def sample_env_def
        truthy_def is_admin_def kv_get_def moved_store_def sample_store_def)
  have f: "find (\<lambda>w. week_id w = ''week_17_k3j9'') (as_weeks (getByPrefix ''weeks:'' moved_store))
             = Some ?w1"
    by (simp add: getByPrefix_def moved_store_def sample_store_def sample_week_def)
  have sp2: "spread ?w1 title_update = ?w2"
    by (simp add: spread_def title_update_def no_updates_def sample_week_def)
  have u2: "update_week sample_env (bearer ''ta'') ''week_17_k3j9'' (Some title_update) moved_store
     = (Json ?w2, ?s2)"
    by (simp add: update_week_found [OF a f] sp2)
       (simp add: week_key_def kv_set_def kv_del_def moved_store_def sample_store_def)
  have g: "get_weeks ''S'' ?s2 = [?w1]"
    by (simp add: get_weeks_def getByPrefix_def moved_store_def sample_store_def js_sort_def)
  show ?thesis
    by (intro conjI u1 none u2 g)
qed

text \<open>
  Claim C10, amended. \<open>update_week\<close> writes the merged week under the key built from
  the stored week's \<open>subjectId\<close> and the addressed week id, whatever the update body
  holds. For a week that lies under that key (as \<open>create_week\<close> stores it), the update
  therefore adds and removes no key: the merged week replaces it there and the listing
  of its subject still contains it; and when the body carries another \<open>subjectId\<close>,
  the stored property changes to it while the key of that other subject and this week id
  is left as it was.
\<close>

theorem update_week_keeps_key:
  assumes admin: "require_admin e header s = Inr uid"
    and found: "find (\<lambda>w. week_id w = p_weekId) (as_weeks (getByPrefix ''weeks:'' s)) = Some week"
    and upd: "update_week e header p_weekId (Some updates) s = (r, s')"
  shows "s' = kv_set (week_key (subjectId week) p_weekId) (VWeek (spread week updates)) s
       \<and> (kv_get (week_key (subjectId week) p_weekId) s = Some (VWeek week) \<longrightarrow>
            set (map fst s') = set (map fst s)
            \<and> kv_get (week_key (subjectId week) p_weekId) s' = Some (VWeek (spread week updates))
            \<and> spread week updates \<in> set (get_weeks (subjectId week) s')
            \<and> (\<forall>other. b_subjectId updates = Some other \<longrightarrow>
                   subjectId (spread week updates) = other
                   \<and> (other \<noteq> subjectId week \<longrightarrow>
                        kv_get (week_key other p_weekId) s' = kv_get (week_key other p_weekId) s)))"
proof -
  let ?k = "week_key (subjectId week) p_weekId"
  from upd update_week_found [OF admin found, of updates]
  have s': "s' = kv_set ?k (VWeek (spread week updates)) s"
    by simp
  have keys: "set (map fst s') = set (map fst s)" if "kv_get ?k s = Some (VWeek week)"
  proof -
    have "set (map fst s') = insert ?k (set (map fst s))"
      unfolding s' by (rule keys_kv_set)
    moreover have "?k \<in> set (map fst s)"
      by (rule kv_get_Some_key [OF that])
    ultimately show ?thesis
      by (simp only: insert_absorb)
  qed
  have stored: "kv_get ?k s' = Some (VWeek (spread week updates))"
    by (simp add: s' kv_get_set)
  have listed: "spread week updates \<in> set (get_weeks (subjectId week) s')"
    unfolding s' by (rule listed_after_set)
  have moved: "subjectId (spread week updates) = other
               \<and> (other \<noteq> subjectId week \<longrightarrow>
                    kv_get (week_key other p_weekId) s' = kv_get (week_key other p_weekId) s)"
    if "b_subjectId updates = Some other" for other
    using that by (simp add: spread_def s' kv_get_set week_key_inject)
  show ?thesis
    using s' keys stored listed moved by blast
qed

text \<open>An update that moves the sample week to subject \<open>S2\<close> leaves it under
  \<open>weeks:S:\<close>.\<close>

theorem update_week_keeps_key_witness:
  "require_admin sample_env (bearer ''ta'') week_store = Inr ''ua''
   \<and> find (\<lambda>w. week_id w = ''week_17_k3j9'') (as_weeks (getByPrefix ''weeks:'' week_store))
       = Some sample_week
   \<and> kv_get (week_key (subjectId sample_week) ''week_17_k3j9'') week_store = Some (VWeek sample_week)
   \<and> b_subjectId subject_update = Some ''S2'' \<and> ''S2'' \<noteq> subjectId sample_week
   \<and> map fst (snd (update_week sample_env (bearer ''ta'') ''week_17_k3j9'' (Some subject_update)
                      week_store))
       = [''users:ua'', ''users:us'', ''weeks:S:week_17_k3j9'']
   \<and> kv_get ''weeks:S:week_17_k3j9''
        (snd (update_week sample_env (bearer ''ta'') ''week_17_k3j9'' (Some subject_update) week_store))
       = Some (VWeek (sample_week\<lparr>subjectId := ''S2''\<rparr>))
   \<and> kv_get ''weeks:S2:week_17_k3j9''
        (snd (update_week sample_env (bearer ''ta'') ''week_17_k3j9'' (Some subject_update) week_store))
       = None"
proof -
  have stored: "kv_get (week_key (subjectId sample_week) ''week_17_k3j9'') week_store
                  = Some (VWeek sample_week)"
    by (simp add: kv_get_def week_key_def week_store_def sample_store_def sample_week_def)
  have sid: "subjectId sample_week = ''S''" and body: "b_subjectId subject_update = Some ''S2''"
    by (simp_all add: sample_week_def subject_update_def no_updates_def)
  have sp: "spread sample_week subject_update = sample_week\<lparr>subjectId := ''S2''\<rparr>"
    by (simp add: spread_def subject_update_def no_updates_def sample_week_def)
  have old: "kv_get ''weeks:S2:week_17_k3j9'' week_store = None"
    by (simp add: kv_get_def week_store_def sample_store_def)
  have keys: "map fst (kv_set ''weeks:S:week_17_k3j9'' v week_store)
                = [''users:ua'', ''users:us'', ''weeks:S:week_17_k3j9'']" for v
    by (simp add: kv_set_def kv_del_def week_store_def sample_store_def)
  show ?thesis
    using stored sid body sp old keys admin_bearer_ta find_sample_week
      update_week_keeps_key [OF admin_bearer_ta find_sample_week surjective_pairing,
        of subject_update]
    by (simp add: week_key_def kv_get_set)
qed

section \<open>Publishing and the student's listing\<close>

lemma in_as_weeks: "w \<in> set (as_weeks vs) \<longleftrightarrow> VWeek w \<in> set vs"
  by (induction vs rule: as_weeks.induct) auto

lemma find_append_None:
  "find P xs = None \<Longrightarrow> find P (xs @ ys) = find P ys"
  by (induction xs) (auto split: if_splits)

lemma kv_set_twice: "kv_set k v (kv_set k v' s) = kv_set k v s"
  by (simp add: kv_set_def kv_del_def)

lemma require_admin_weeks_set:
  "require_admin e header (kv_set (week_key a w) v s) = require_admin e header s"
  by (simp add: require_admin_def kv_get_set week_key_def split: sum.splits)

lemma scan_del_subset: "set (getByPrefix p (kv_del k s)) \<subseteq> set (getByPrefix p s)"
  by (auto simp: getByPrefix_def kv_del_def)

lemma week_ids_del: "set (week_ids (kv_del k s)) \<subseteq> set (week_ids s)"
proof
  fix i assume "i \<in> set (week_ids (kv_del k s))"
  then obtain w where "VWeek w \<in> set (getByPrefix ''weeks:'' (kv_del k s))" "i = week_id w"
    by (auto simp: week_ids_def in_as_weeks)
  with scan_del_subset [of "''weeks:''" k s]
  have "w \<in> set (as_weeks (getByPrefix ''weeks:'' s))" "i = week_id w"
    by (auto simp: in_as_weeks)
  then show "i \<in> set (week_ids s)"
    by (simp add: week_ids_def)
qed

lemma find_fresh_set:
  assumes "week_id w \<notin> set (week_ids s)"
  shows "find (\<lambda>x. week_id x = week_id w)
           (as_weeks (getByPrefix ''weeks:'' (kv_set (week_key a (week_id w)) (VWeek w') s)))
         = (if week_id w' = week_id w then Some w' else None)"
proof -
  let ?k = "week_key a (week_id w)"
  from assms week_ids_del [of ?k s] have "week_id w \<notin> set (week_ids (kv_del ?k s))"
    by auto
  then have "find (\<lambda>x. week_id x = week_id w) (as_weeks (getByPrefix ''weeks:'' (kv_del ?k s))) = None"
    by (force simp: week_ids_def find_None_iff image_iff)
  then show ?thesis
    by (simp add: kv_set_def getByPrefix_append as_weeks_append find_append_None)
       (simp add: getByPrefix_def week_key_def)
qed

lemma unpublish_hidden: "\<not> published w \<Longrightarrow> w\<lparr>published := False\<rparr> = w"
  by (cases w) simp

lemma spread_toggle: "spread w (toggle_body w) = w\<lparr>published := \<not> published w\<rparr>"
  by (simp add: spread_def toggle_body_def split: option.splits)

lemma togglePublish_fresh:
  assumes admin: "require_admin e (bearer token) s = Inr uid"
    and fresh: "week_id w \<notin> set (week_ids s)"
  shows "togglePublish e token w (kv_set (week_key (subjectId w) (week_id w)) (VWeek w) s)
         = (Json (w\<lparr>published := \<not> published w\<rparr>),
            kv_set (week_key (subjectId w) (week_id w)) (VWeek (w\<lparr>published := \<not> published w\<rparr>)) s)"
proof -
  let ?s1 = "kv_set (week_key (subjectId w) (week_id w)) (VWeek w) s"
  have a: "require_admin e (bearer token) ?s1 = Inr uid"
    by (simp add: require_admin_weeks_set admin)
  have f: "find (\<lambda>x. week_id x = week_id w) (as_weeks (getByPrefix ''weeks:'' ?s1)) = Some w"
    by (simp add: find_fresh_set [OF fresh])
  show ?thesis
    unfolding togglePublish_def
    by (simp add: update_week_found [OF a f] spread_toggle kv_set_twice)
qed

lemma scan_kv_set:
  "getByPrefix p (kv_set k v s) = getByPrefix p (kv_del k s) @ (if prefix p k then [v] else [])"
  by (simp add: kv_set_def getByPrefix_def)

lemma prefix_week_key: "prefix (week_prefix a) (week_key a i)"
  by (simp add: week_prefix_def week_key_def)

lemma get_weeks_week_prefix:
  "get_weeks a s = js_sort by_weekNumber (as_weeks (getByPrefix (week_prefix a) s))"
  by (simp add: get_weeks_def week_prefix_def)

lemma set_get_weeks_set:
  "set (get_weeks a (kv_set (week_key a i) (VWeek w) s))
     = insert w (set (as_weeks (getByPrefix (week_prefix a) (kv_del (week_key a i) s))))"
  by (simp add: get_weeks_week_prefix set_js_sort_by_weekNumber scan_kv_set prefix_week_key
      as_weeks_append)

lemma scan_narrower:
  assumes "prefix p q"
  shows "set (getByPrefix q s) \<subseteq> set (getByPrefix p s)"
proof
  fix v assume "v \<in> set (getByPrefix q s)"
  then obtain entry where "entry \<in> set s" "prefix q (fst entry)" "v = snd entry"
    by (auto simp: getByPrefix_def)
  with assms have "entry \<in> set s" "prefix p (fst entry)" "v = snd entry"
    by auto
  then show "v \<in> set (getByPrefix p s)"
    by (auto simp: getByPrefix_def)
qed

lemma week_prefix_weeks: "prefix ''weeks:'' (week_prefix a)"
  by (simp add: week_prefix_def)

lemma student_list_hides:
  assumes fresh: "week_id w \<notin> set (week_ids s)" and hidden: "\<not> published w"
  shows "week_id w \<notin> week_id ` set (loadWeeks a (kv_set (week_key a (week_id w)) (VWeek w) s))"
proof
  let ?k = "week_key a (week_id w)"
  assume "week_id w \<in> week_id ` set (loadWeeks a (kv_set ?k (VWeek w) s))"
  then obtain x where x: "x \<in> set (loadWeeks a (kv_set ?k (VWeek w) s))" "week_id x = week_id w"
    by auto
  then have px: "published x"
    and cases: "VWeek x \<in> set (getByPrefix (week_prefix a) (kv_del ?k s)) \<or> x = w"
    by (auto simp: loadWeeks_def set_js_sort_by_weekNumber set_get_weeks_set in_as_weeks)
  from cases show False
  proof
    assume "x = w"
    with px hidden show False by simp
  next
    assume "VWeek x \<in> set (getByPrefix (week_prefix a) (kv_del ?k s))"
    with scan_del_subset [of "week_prefix a" ?k s] scan_narrower [OF week_prefix_weeks, of a s]
    have "VWeek x \<in> set (getByPrefix ''weeks:'' s)"
      by auto
    then have "x \<in> set (as_weeks (getByPrefix ''weeks:'' s))"
      by (simp add: in_as_weeks)
    then have "week_id x \<in> set (week_ids s)"
      by (simp add: week_ids_def)
    with x(2) fresh show False by simp
  qed
qed

lemma student_list_shows:
  "published w \<Longrightarrow> w \<in> set (loadWeeks a (kv_set (week_key a p_weekId) (VWeek w) s))"
  using listed_after_set [of w a p_weekId s]
  by (simp add: loadWeeks_def set_js_sort_by_weekNumber)

lemma create_week_result:
  assumes "require_admin e header s = Inr uid"
    and "create_week e header (Some b) s = (Json w, s1)"
  shows "week_id w = ''week_'' @ id_stamp e \<and> published w = or_false (b_published b)
       \<and> s1 = kv_set (week_key (subjectId w) (week_id w)) (VWeek w) s"
  using assms by (auto simp: create_week_def Let_def week_key_def split: if_splits)

text \<open>
  Claim C4. A week an admin creates with \<open>published\<close> false or absent, under a new id
  no stored week has, is in the server's unfiltered listing of its subject and absent
  from the student's listing, which keeps the published weeks only. After one
  \<open>togglePublish\<close> of the week the student's listing contains it, published. After a
  second \<open>togglePublish\<close> the week and the whole store are as they were after the
  creation, so the week is absent from the student's listing again.
\<close>

theorem publish_toggle_visibility:
  assumes admin: "require_admin e (bearer token) s = Inr uid"
    and fresh: "''week_'' @ id_stamp e \<notin> set (week_ids s)"
    and unpublished: "or_false (b_published b) = False"
    and created: "create_week e (bearer token) (Some b) s = (Json w, s1)"
    and once: "togglePublish e token w s1 = (r2, s2)"
    and twice: "togglePublish e token (w\<lparr>published := True\<rparr>) s2 = (r3, s3)"
  shows "w \<in> set (get_weeks (subjectId w) s1)
       \<and> week_id w \<notin> week_id ` set (loadWeeks (subjectId w) s1)
       \<and> r2 = Json (w\<lparr>published := True\<rparr>)
       \<and> w\<lparr>published := True\<rparr> \<in> set (loadWeeks (subjectId w) s2)
       \<and> r3 = Json w \<and> s3 = s1
       \<and> week_id w \<notin> week_id ` set (loadWeeks (subjectId w) s3)"
proof -
  let ?k = "week_key (subjectId w) (week_id w)"
  let ?w' = "w\<lparr>published := True\<rparr>"
  from create_week_result [OF admin created] unpublished
  have id: "week_id w = ''week_'' @ id_stamp e" and hidden: "\<not> published w"
    and s1: "s1 = kv_set ?k (VWeek w) s"
    by simp_all
  from fresh id have fresh_w: "week_id w \<notin> set (week_ids s)" by simp
  have listed: "w \<in> set (get_weeks (subjectId w) s1)"
    unfolding s1 by (rule listed_after_set)
  have absent: "week_id w \<notin> week_id ` set (loadWeeks (subjectId w) s1)"
    unfolding s1 by (rule student_list_hides [OF fresh_w hidden])
  from once togglePublish_fresh [OF admin fresh_w] hidden
  have r2: "r2 = Json ?w'" and s2: "s2 = kv_set ?k (VWeek ?w') s"
    by (simp_all add: s1)
  have shown: "?w' \<in> set (loadWeeks (subjectId w) s2)"
    unfolding s2 by (rule student_list_shows) simp
  have fresh_w': "week_id ?w' \<notin> set (week_ids s)"
    using fresh_w by simp
  from twice togglePublish_fresh [OF admin fresh_w'] hidden
  have r3: "r3 = Json w" and s3: "s3 = s1"
    by (simp_all add: s1 s2 unpublish_hidden)
  show ?thesis
    using listed absent r2 shown r3 s3 by simp
qed

lemma admin_bearer_ta0: "require_admin sample_env (bearer ''ta'') sample_store = Inr ''ua''"
  by (simp add: require_admin_def authenticate_def accessToken_def bearer_def sample_env_def
      truthy_def is_admin_def kv_get_def sample_store_def)

lemma create_sample_week:
  "create_week sample_env (bearer ''ta'') (Some sample_week_body) sample_store
     = (Json sample_week, week_store)"
  by (simp add: create_week_def admin_bearer_ta0)
     (simp add: sample_week_body_def truthy_def Let_def sample_week_def week_store_def
        kv_set_def kv_del_def sample_store_def sample_env_def)

text \<open>The sample week is created unpublished, published, and unpublished again.\<close>

theorem publish_toggle_visibility_witness:
  "require_admin sample_env (bearer ''ta'') sample_store = Inr ''ua''
   \<and> ''week_'' @ id_stamp sample_env \<notin> set (week_ids sample_store)
   \<and> or_false (b_published sample_week_body) = False
   \<and> create_week sample_env (bearer ''ta'') (Some sample_week_body) sample_store
       = (Json sample_week, week_store)
   \<and> week_id sample_week \<notin> week_id ` set (loadWeeks ''S'' week_store)
   \<and> sample_week\<lparr>published := True\<rparr>
       \<in> set (loadWeeks ''S'' (snd (togglePublish sample_env ''ta'' sample_week week_store)))
   \<and> snd (togglePublish sample_env ''ta'' (sample_week\<lparr>published := True\<rparr>)
            (snd (togglePublish sample_env ''ta'' sample_week week_store))) = week_store"
proof -
  have fresh: "''week_'' @ id_stamp sample_env \<notin> set (week_ids sample_store)"
    by (simp add: week_ids_def getByPrefix_def sample_store_def)
  have unpub: "or_false (b_published sample_week_body) = False"
    by (simp add: sample_week_body_def)
  have sid: "subjectId sample_week = ''S''"
    by (simp add: sample_week_def)
  show ?thesis
    using fresh unpub sid admin_bearer_ta0 create_sample_week
      publish_toggle_visibility [OF admin_bearer_ta0 fresh unpub create_sample_week
        surjective_pairing surjective_pairing]
    by simp
qed

section \<open>Blank links when a week is created\<close>

text \<open>
  Against claim C1 as stated: the create handler stores the links of the request body as
  it receives them. A body whose \<open>videoLinks\<close> are \<open>[{url: "  "}, {url: "http://x"}]\<close>
  is stored with both entries, the blank one included.
\<close>

theorem create_week_stores_blank_link:
  "create_week sample_env (bearer ''ta'') (Some sample_week_body) sample_store
     = (Json sample_week, week_store)
   \<and> b_videoLinks sample_week_body
       = Some [Item \<lparr>url = ''  '', title = None\<rparr>, Item \<lparr>url = ''http://x'', title = None\<rparr>]
   \<and> kv_get ''weeks:S:week_17_k3j9'' week_store = Some (VWeek sample_week)
   \<and> videoLinks sample_week
       = [Item \<lparr>url = ''  '', title = None\<rparr>, Item \<lparr>url = ''http://x'', title = None\<rparr>]
   \<and> \<not> truthy (trim ''  '')"
proof -
  have "create_week sample_env (bearer ''ta'') (Some sample_week_body) sample_store
          = (Json sample_week, week_store)"
    by (simp add: create_week_def admin_bearer_ta0)
       (simp add: sample_week_body_def truthy_def Let_def sample_week_def week_store_def
          kv_set_def kv_del_def sample_store_def sample_env_def)
  moreover have "kv_get ''weeks:S:week_17_k3j9'' week_store = Some (VWeek sample_week)"
    by (simp add: kv_get_def week_store_def sample_store_def)
  moreover have "\<not> truthy (trim ''  '')"
    by (simp add: truthy_def trim_def is_space_def)
  ultimately show ?thesis
    by (simp add: sample_week_body_def sample_week_def)
qed

lemma weekData_links:
  "b_videoLinks (weekData subj form)
     = Some (map Item (filter (\<lambda>l. truthy (trim (url l))) (f_videoLinks form)))"
  "b_audioLinks (weekData subj form)
     = Some (map Item (filter (\<lambda>l. truthy (trim (url l))) (f_audioLinks form)))"
  "b_pdfLinks (weekData subj form)
     = Some (map Item (filter (\<lambda>l. truthy (trim (url l))) (f_pdfLinks form)))"
  "b_subjectId (weekData subj form) = Some (subject_id subj)"
  by (simp_all add: weekData_def)

lemma reply_not_Json: "reply r \<noteq> Json x"
  by (cases r) simp

lemma create_week_Json:
  assumes "create_week e header (Some b) s = (Json w, s')"
  shows "subjectId w = or_else (b_subjectId b) []
       \<and> videoLinks w = or_else (b_videoLinks b) []
       \<and> audioLinks w = or_else (b_audioLinks b) []
       \<and> pdfLinks w = or_else (b_pdfLinks b) []
       \<and> s' = kv_set (week_key (subjectId w) (week_id w)) (VWeek w) s"
  using assms
  by (auto simp: create_week_def Let_def week_key_def reply_not_Json split: sum.splits if_splits)

text \<open>
  Claim C1, amended. For every week created through \<open>createOrUpdateWeek\<close> of the admin
  dashboard, the link entries whose \<open>url\<close> is blank or white space only are removed
  from the request body before it is sent: the week the create handler returns and stores
  under the subject's key holds, in each of its three link lists, exactly the form's
  entries with a non-blank \<open>url\<close>, so no stored link of it is blank.
\<close>

theorem form_week_has_no_blank_links:
  assumes "createOrUpdateWeek e token selectedSubject None form s = (Json w, s')"
  shows "kv_get (week_key (subject_id selectedSubject) (week_id w)) s' = Some (VWeek w)
       \<and> videoLinks w = map Item (filter (\<lambda>l. truthy (trim (url l))) (f_videoLinks form))
       \<and> audioLinks w = map Item (filter (\<lambda>l. truthy (trim (url l))) (f_audioLinks form))
       \<and> pdfLinks w = map Item (filter (\<lambda>l. truthy (trim (url l))) (f_pdfLinks form))
       \<and> (\<forall>l \<in> set (videoLinks w @ audioLinks w @ pdfLinks w). truthy (trim (getContentUrl l)))"
proof -
  from assms have "create_week e (bearer token) (Some (weekData selectedSubject form)) s = (Json w, s')"
    by (simp add: createOrUpdateWeek_def)
  from create_week_Json [OF this]
  have sid: "subjectId w = subject_id selectedSubject"
    and v: "videoLinks w = map Item (filter (\<lambda>l. truthy (trim (url l))) (f_videoLinks form))"
    and a: "audioLinks w = map Item (filter (\<lambda>l. truthy (trim (url l))) (f_audioLinks form))"
    and p: "pdfLinks w = map Item (filter (\<lambda>l. truthy (trim (url l))) (f_pdfLinks form))"
    and s': "s' = kv_set (week_key (subjectId w) (week_id w)) (VWeek w) s"
    by (simp_all add: weekData_links)
  have "kv_get (week_key (subject_id selectedSubject) (week_id w)) s' = Some (VWeek w)"
    by (simp add: s' sid kv_get_set)
  moreover have "\<forall>l \<in> set (videoLinks w @ audioLinks w @ pdfLinks w). truthy (trim (getContentUrl l))"
    by (auto simp: v a p)
  ultimately show ?thesis
    using v a p by simp
qed


text \<open>The form with the video links \<open>[{url: "  "}, {url: "http://x"}]\<close> is stored with the
  one non-blank entry.\<close>

theorem form_week_has_no_blank_links_witness:
  "createOrUpdateWeek sample_env ''ta'' sample_subject None sample_form sample_store
     = (Json (sample_week\<lparr>videoLinks := [Item \<lparr>url = ''http://x'', title = Some []\<rparr>]\<rparr>),
        sample_store @ [(''weeks:S:week_17_k3j9'',
           VWeek (sample_week\<lparr>videoLinks := [Item \<lparr>url = ''http://x'', title = Some []\<rparr>]\<rparr>))])
   \<and> f_videoLinks sample_form = [\<lparr>url = ''  '', title = Some []\<rparr>, \<lparr>url = ''http://x'', title = Some []\<rparr>]
   \<and> kv_get (week_key (subject_id sample_subject) ''week_17_k3j9'')
        (sample_store @ [(''weeks:S:week_17_k3j9'',
           VWeek (sample_week\<lparr>videoLinks := [Item \<lparr>url = ''http://x'', title = Some []\<rparr>]\<rparr>))])
       = Some (VWeek (sample_week\<lparr>videoLinks := [Item \<lparr>url = ''http://x'', title = Some []\<rparr>]\<rparr>))"
proof -
  let ?w = "sample_week\<lparr>videoLinks := [Item \<lparr>url = ''http://x'', title = Some []\<rparr>]\<rparr>"
  have c: "createOrUpdateWeek sample_env ''ta'' sample_subject None sample_form sample_store
     = (Json ?w, sample_store @ [(''weeks:S:week_17_k3j9'', VWeek ?w)])"
    by (simp add: createOrUpdateWeek_def create_week_def admin_bearer_ta0)
       (simp add: weekData_def sample_form_def sample_subject_def truthy_def Let_def
          sample_week_def trim_def is_space_def
          kv_set_def kv_del_def sample_store_def sample_env_def)
  have f: "f_videoLinks sample_form = [\<lparr>url = ''  '', title = Some []\<rparr>, \<lparr>url = ''http://x'', title = Some []\<rparr>]"
    by (simp add: sample_form_def)
  have i: "week_id ?w = ''week_17_k3j9''"
    by (simp add: sample_week_def)
  from form_week_has_no_blank_links [OF c]
  have "kv_get (week_key (subject_id sample_subject) (week_id ?w))
          (sample_store @ [(''weeks:S:week_17_k3j9'', VWeek ?w)]) = Some (VWeek ?w)"
    by (rule conjunct1)
  then have k: "kv_get (week_key (subject_id sample_subject) ''week_17_k3j9'')
          (sample_store @ [(''weeks:S:week_17_k3j9'', VWeek ?w)]) = Some (VWeek ?w)"
    by (simp only: i)
  show ?thesis
    by (intro conjI c f k)
qed

section \<open>Deleting a subject\<close>

lemma foldl_kv_del:
  "foldl (\<lambda>st w. kv_del (f w) st) s ws = filter (\<lambda>entry. fst entry \<notin> f ` set ws) s"
proof (induction ws arbitrary: s)
  case Nil
  then show ?case by simp
next
  case (Cons a ws)
  have "foldl (\<lambda>st w. kv_del (f w) st) s (a # ws)
          = filter (\<lambda>entry. fst entry \<notin> f ` set ws) (kv_del (f a) s)"
    by (simp add: Cons.IH)
  also have "\<dots> = filter (\<lambda>entry. fst entry \<notin> f ` set (a # ws)) s"
    by (simp add: kv_del_def conj_commute)
  finally show ?case .
qed

lemma delete_subject_result:
  assumes "require_admin e header s = Inr uid"
  shows "delete_subject e header a s =
           (Json (),
            filter (\<lambda>entry. fst entry \<notin> (\<lambda>w. week_key a (week_id w))
                       ` set (as_weeks (getByPrefix (week_prefix a) (kv_del (subject_key a) s))))
              (kv_del (subject_key a) s))"
  using assms
  by (simp add: delete_subject_def Let_def foldl_kv_del week_key_def week_prefix_def subject_key_def)

text \<open>
  Claim C2 says that after an admin's \<open>delete_subject\<close> the listing of the subject's
  weeks is empty, every week of the subject being deleted with it. The handler does not
  do so here: it rebuilds the key of each scanned week from the week's \<open>id\<close>. The
  sample week is created under subject \<open>S\<close>, an update gives it another \<open>id\<close> (the
  key stays), and deleting subject \<open>S\<close> then deletes a key that does not exist: the
  store is unchanged and the listing of \<open>S\<close> still holds the week.
\<close>

theorem delete_subject_leaves_renamed_week:
  "create_week sample_env (bearer ''ta'') (Some sample_week_body) sample_store
     = (Json sample_week, week_store)
   \<and> update_week sample_env (bearer ''ta'') ''week_17_k3j9'' (Some id_update) week_store
     = (Json (sample_week\<lparr>week_id := ''other''\<rparr>),
        sample_store @ [(''weeks:S:week_17_k3j9'', VWeek (sample_week\<lparr>week_id := ''other''\<rparr>))])
   \<and> delete_subject sample_env (bearer ''ta'') ''S''
        (sample_store @ [(''weeks:S:week_17_k3j9'', VWeek (sample_week\<lparr>week_id := ''other''\<rparr>))])
     = (Json (),
        sample_store @ [(''weeks:S:week_17_k3j9'', VWeek (sample_week\<lparr>week_id := ''other''\<rparr>))])
   \<and> get_weeks ''S''
        (sample_store @ [(''weeks:S:week_17_k3j9'', VWeek (sample_week\<lparr>week_id := ''other''\<rparr>))])
     = [sample_week\<lparr>week_id := ''other''\<rparr>]"
proof -
  let ?w = "sample_week\<lparr>week_id := ''other''\<rparr>"
  let ?s = "sample_store @ [(''weeks:S:week_17_k3j9'', VWeek ?w)]"
  have c: "create_week sample_env (bearer ''ta'') (Some sample_week_body) sample_store
     = (Json sample_week, week_store)"
    by (rule create_sample_week)
  have sp: "spread sample_week id_update = ?w"
    by (simp add: spread_def id_update_def no_updates_def sample_week_def)
  have u: "update_week sample_env (bearer ''ta'') ''week_17_k3j9'' (Some id_update) week_store
     = (Json ?w, ?s)"
    by (simp add: update_week_found [OF admin_bearer_ta find_sample_week] sp)
       (simp add: week_key_def sample_week_def kv_set_def kv_del_def week_store_def sample_store_def)
  have a: "require_admin sample_env (bearer ''ta'') ?s = Inr ''ua''"
    by (simp add: require_admin_def authenticate_def accessToken_def bearer_def sample_env_def
      truthy_def is_admin_def kv_get_def sample_store_def)
  have d: "delete_subject sample_env (bearer ''ta'') ''S'' ?s = (Json (), ?s)"
    by (simp add: delete_subject_def a)
       (simp add: Let_def kv_del_def getByPrefix_def sample_store_def sample_week_def)
  have g: "get_weeks ''S'' ?s = [?w]"
    by (simp add: get_weeks_def getByPrefix_def sample_store_def js_sort_def)
  show ?thesis
    by (intro conjI c u d g)
qed

text \<open>The same three requests in a row: the delete answers success and the listing of
  \<open>S\<close> afterwards is not empty.\<close>

theorem delete_subject_leaves_renamed_week_witness:
  "fst (delete_subject sample_env (bearer ''ta'') ''S''
          (snd (update_week sample_env (bearer ''ta'') ''week_17_k3j9'' (Some id_update) week_store)))
     = Json ()
   \<and> get_weeks ''S''
        (snd (delete_subject sample_env (bearer ''ta'') ''S''
           (snd (update_week sample_env (bearer ''ta'') ''week_17_k3j9'' (Some id_update)
              week_store))))
     = [sample_week\<lparr>week_id := ''other''\<rparr>]"
proof -
  note steps = delete_subject_leaves_renamed_week
  from steps have u: "update_week sample_env (bearer ''ta'') ''week_17_k3j9'' (Some id_update) week_store
     = (Json (sample_week\<lparr>week_id := ''other''\<rparr>),
        sample_store @ [(''weeks:S:week_17_k3j9'', VWeek (sample_week\<lparr>week_id := ''other''\<rparr>))])"
    by (elim conjE)
  from steps have d: "delete_subject sample_env (bearer ''ta'') ''S''
        (sample_store @ [(''weeks:S:week_17_k3j9'', VWeek (sample_week\<lparr>week_id := ''other''\<rparr>))])
     = (Json (),
        sample_store @ [(''weeks:S:week_17_k3j9'', VWeek (sample_week\<lparr>week_id := ''other''\<rparr>))])"
    by (elim conjE)
  from steps have g: "get_weeks ''S''
        (sample_store @ [(''weeks:S:week_17_k3j9'', VWeek (sample_week\<lparr>week_id := ''other''\<rparr>))])
     = [sample_week\<lparr>week_id := ''other''\<rparr>]"
    by (elim conjE)
  show ?thesis
    by (simp only: u d g fst_conv snd_conv simp_thms)
qed

text \<open>
  Where the keys agree with the values the cascade is complete: when what lies under the
  subject's week prefix is a week stored under the key of its own \<open>id\<close> and every
  subject lies under the key of its \<open>id\<close>, after an admin's \<open>delete_subject\<close> the
  subject key is gone, no subject of the listing has that id, no entry is left under the
  subject's week prefix, and the listing of the subject's weeks is empty.
\<close>

lemma delete_subject_cascade:
  assumes admin: "require_admin e header s = Inr uid"
    and weeks: "weeks_keyed p_subjectId s"
    and subjects: "subjects_keyed s"
    and del: "delete_subject e header p_subjectId s = (r, s')"
  shows "r = Json ()
       \<and> kv_get (subject_key p_subjectId) s' = None
       \<and> get_subjects s' = Json (getByPrefix ''subjects:'' s')
       \<and> (\<forall>x. VSubject x \<in> set (getByPrefix ''subjects:'' s') \<longrightarrow> subject_id x \<noteq> p_subjectId)
       \<and> getByPrefix (week_prefix p_subjectId) s' = []
       \<and> get_weeks p_subjectId s' = []"
proof -
  let ?s1 = "kv_del (subject_key p_subjectId) s"
  let ?ks = "(\<lambda>w. week_key p_subjectId (week_id w))
               ` set (as_weeks (getByPrefix (week_prefix p_subjectId) ?s1))"
  from del delete_subject_result [OF admin, of p_subjectId]
  have r: "r = Json ()" and s': "s' = filter (\<lambda>entry. fst entry \<notin> ?ks) ?s1"
    by simp_all
  have sub: "set s' \<subseteq> set ?s1" "set ?s1 \<subseteq> set s"
    by (auto simp: s' kv_del_def)
  have gone: "kv_get (subject_key p_subjectId) s' = None"
  proof -
    have "subject_key p_subjectId \<notin> fst ` set s'"
      using sub(1) by (auto simp: kv_del_def)
    then show ?thesis
      by (simp add: kv_get_def map_of_eq_None_iff)
  qed
  have absent: "subject_id x \<noteq> p_subjectId" if "VSubject x \<in> set (getByPrefix ''subjects:'' s')" for x
  proof
    assume eq: "subject_id x = p_subjectId"
    from that obtain k where k: "(k, VSubject x) \<in> set s'"
      by (auto simp: getByPrefix_def)
    with sub have "(k, VSubject x) \<in> set s" and ne: "k \<noteq> subject_key p_subjectId"
      by (auto simp: kv_del_def)
    with subjects have "subject_entry_keyed (k, VSubject x)"
      by (auto simp: subjects_keyed_def list_all_iff)
    with eq ne show False by simp
  qed
  have none: "\<not> prefix (week_prefix p_subjectId) (fst entry)" if "entry \<in> set s'" for entry
  proof
    assume p: "prefix (week_prefix p_subjectId) (fst entry)"
    from that have in1: "entry \<in> set ?s1" and out: "fst entry \<notin> ?ks"
      by (simp_all add: s')
    from in1 sub(2) weeks p have "week_entry_keyed p_subjectId entry"
      by (auto simp: weeks_keyed_def list_all_iff)
    then obtain w where w: "snd entry = VWeek w" "fst entry = week_key p_subjectId (week_id w)"
      by (cases entry; cases "snd entry") auto
    from in1 p w(1) have "VWeek w \<in> set (getByPrefix (week_prefix p_subjectId) ?s1)"
      by (force simp: getByPrefix_def)
    then have "w \<in> set (as_weeks (getByPrefix (week_prefix p_subjectId) ?s1))"
      by (simp add: in_as_weeks)
    with w(2) out show False by auto
  qed
  then have scan: "getByPrefix (week_prefix p_subjectId) s' = []"
    by (simp add: getByPrefix_def filter_empty_conv)
  then have listing: "get_weeks p_subjectId s' = []"
    by (simp add: get_weeks_week_prefix js_sort_def)
  show ?thesis
    using r gone absent scan listing by (simp add: get_subjects_def)
qed

lemma admin_bearer_ta_subject: "require_admin sample_env (bearer ''ta'') subject_store = Inr ''ua''"
  by (simp add: require_admin_def authenticate_def accessToken_def bearer_def sample_env_def
      truthy_def is_admin_def kv_get_def subject_store_def week_store_def sample_store_def)

text \<open>Deleting subject \<open>S\<close> from the store with the sample week and its subject
  leaves the two profiles.\<close>

lemma delete_subject_cascade_example:
  "require_admin sample_env (bearer ''ta'') subject_store = Inr ''ua''
   \<and> weeks_keyed ''S'' subject_store \<and> subjects_keyed subject_store
   \<and> get_weeks ''S'' subject_store = [sample_week]
   \<and> delete_subject sample_env (bearer ''ta'') ''S'' subject_store = (Json (), sample_store)
   \<and> get_weeks ''S'' sample_store = []
   \<and> getByPrefix ''subjects:'' sample_store = []"
proof -
  have wk: "weeks_keyed ''S'' subject_store"
    by (simp add: weeks_keyed_def subject_store_def week_store_def sample_store_def
        week_prefix_def week_key_def sample_week_def)
  have sk: "subjects_keyed subject_store"
    by (simp add: subjects_keyed_def subject_store_def week_store_def sample_store_def
        subject_key_def)
  have before: "get_weeks ''S'' subject_store = [sample_week]"
    by (simp add: get_weeks_def getByPrefix_def subject_store_def week_store_def
        sample_store_def js_sort_def)
  have d: "delete_subject sample_env (bearer ''ta'') ''S'' subject_store = (Json (), sample_store)"
    by (simp add: delete_subject_def admin_bearer_ta_subject)
       (simp add: Let_def kv_del_def getByPrefix_def subject_store_def week_store_def
          sample_store_def sample_week_def)
  from delete_subject_cascade [OF admin_bearer_ta_subject wk sk d]
  have after: "get_weeks ''S'' sample_store = []"
    and subs: "\<forall>x. VSubject x \<in> set (getByPrefix ''subjects:'' sample_store) \<longrightarrow> subject_id x \<noteq> ''S''"
    by simp_all
  have empty: "getByPrefix ''subjects:'' sample_store = []"
    by (simp add: getByPrefix_def sample_store_def)
  show ?thesis
    by (intro conjI admin_bearer_ta_subject wk sk before d after empty)
qed

section \<open>YouTube id extraction\<close>

lemma lit_Some: "lit w k s = Some t \<longleftrightarrow> (\<exists>rest. s = w @ rest \<and> k rest = Some t)"
  by (auto simp: lit_def prefix_def)

lemma one_Some: "one P k s = Some t \<longleftrightarrow> (\<exists>c rest. s = c # rest \<and> P c \<and> k rest = Some t)"
  by (cases s) auto

lemma star_accept: "star P (\<lambda>rest. Some g) s = Some g"
  by (induction s) simp_all

lemma star_greedy: "star P (\<lambda>rest. Some (f rest)) s = Some (f (dropWhile P s))"
  by (induction s) simp_all

lemma take_length_dropWhile: "take (length s - length (dropWhile P s)) s = takeWhile P s"
proof -
  have "length s = length (takeWhile P s) + length (dropWhile P s)"
    by (metis length_append takeWhile_dropWhile_id)
  then have "length s - length (dropWhile P s) = length (takeWhile P s)"
    by simp
  then show ?thesis
    by (simp add: takeWhile_eq_take [symmetric])
qed

lemma group7: "capture (star P) (\<lambda>g. star Q (\<lambda>rest. Some g)) s = Some (takeWhile P s)"
  by (simp add: capture_def star_accept star_greedy take_length_dropWhile)

lemma opt_lit_total: "opt (lit [c]) (\<lambda>x. Some (g x)) s = Some (g (skip c s))"
  by (cases s) (simp_all add: opt_def lit_def)

lemma after_marker:
  "opt (lit ''?'')
     (opt (lit ''v'')
        (opt (lit ''='')
           (capture (star not_sep) (\<lambda>group7. star dot (\<lambda>rest. Some group7)))))
   = (\<lambda>s. Some (token_after s))"
proof -
  have 1: "capture (star not_sep) (\<lambda>group7. star dot (\<lambda>rest. Some group7))
             = (\<lambda>x. Some (takeWhile not_sep x))"
    by (rule ext) (rule group7)
  have 2: "opt (lit ''='') (\<lambda>x. Some (takeWhile not_sep x))
             = (\<lambda>x. Some (takeWhile not_sep (skip CHR ''='' x)))"
    by (rule ext) (rule opt_lit_total)
  have 3: "opt (lit ''v'') (\<lambda>x. Some (takeWhile not_sep (skip CHR ''='' x)))
             = (\<lambda>x. Some (takeWhile not_sep (skip CHR ''='' (skip CHR ''v'' x))))"
    by (rule ext) (rule opt_lit_total)
  show ?thesis
    unfolding 1 2 3 token_after_def by (rule ext) (rule opt_lit_total)
qed

lemma alt_SomeD: "alt a b k s = Some t \<Longrightarrow> a k s = Some t \<or> b k s = Some t"
  by (auto simp: alt_def split: option.splits)

lemma marker1_Some:
  assumes "(lit ''youtu'' \<circ> one dot \<circ> lit ''be/'') k s = Some t"
  shows "\<exists>m rest. s = m @ rest \<and> is_marker m \<and> k rest = Some t"
proof -
  from assms obtain r1 where r1: "s = ''youtu'' @ r1" "one dot (lit ''be/'' k) r1 = Some t"
    unfolding comp_def lit_Some by blast
  then obtain c r2 where r2: "r1 = c # r2" "dot c" "lit ''be/'' k r2 = Some t"
    unfolding one_Some by blast
  then obtain rest where rest: "r2 = ''be/'' @ rest" "k rest = Some t"
    unfolding lit_Some by blast
  have "s = (''youtu'' @ [c] @ ''be/'') @ rest"
    by (simp add: r1 r2 rest)
  moreover have "is_marker (''youtu'' @ [c] @ ''be/'')"
    unfolding is_marker_def using r2(2) by blast
  ultimately show ?thesis
    using rest(2) by blast
qed

lemma marker3_Some:
  assumes "(lit ''/u/'' \<circ> one word_char \<circ> lit ''/'') k s = Some t"
  shows "\<exists>m rest. s = m @ rest \<and> is_marker m \<and> k rest = Some t"
proof -
  from assms obtain r1 where r1: "s = ''/u/'' @ r1" "one word_char (lit ''/'' k) r1 = Some t"
    unfolding comp_def lit_Some by blast
  then obtain c r2 where r2: "r1 = c # r2" "word_char c" "lit ''/'' k r2 = Some t"
    unfolding one_Some by blast
  then obtain rest where rest: "r2 = ''/'' @ rest" "k rest = Some t"
    unfolding lit_Some by blast
  have "s = (''/u/'' @ [c] @ ''/'') @ rest"
    by (simp add: r1 r2 rest)
  moreover have "is_marker (''/u/'' @ [c] @ ''/'')"
    unfolding is_marker_def using r2(2) by blast
  ultimately show ?thesis
    using rest(2) by blast
qed

lemma marker_lit_Some:
  assumes "lit m k s = Some t" and "is_marker m"
  shows "\<exists>m rest. s = m @ rest \<and> is_marker m \<and> k rest = Some t"
  using assms unfolding lit_Some by blast

lemma is_marker_lits: "is_marker ''v/''" "is_marker ''embed/''" "is_marker ''watch?''"
  by (simp_all add: is_marker_def)

lemma markers_SomeD:
  assumes "markers k s = Some t"
  shows "\<exists>m rest. s = m @ rest \<and> is_marker m \<and> k rest = Some t"
proof -
  from assms consider
      "(lit ''youtu'' \<circ> one dot \<circ> lit ''be/'') k s = Some t"
    | "lit ''v/'' k s = Some t"
    | "(lit ''/u/'' \<circ> one word_char \<circ> lit ''/'') k s = Some t"
    | "lit ''embed/'' k s = Some t"
    | "lit ''watch?'' k s = Some t"
    unfolding markers_def by (blast dest: alt_SomeD)
  then show ?thesis
  proof cases
    case 1
    then show ?thesis by (rule marker1_Some)
  next
    case 2
    then show ?thesis by (rule marker_lit_Some) (rule is_marker_lits)
  next
    case 3
    then show ?thesis by (rule marker3_Some)
  next
    case 4
    then show ?thesis by (rule marker_lit_Some) (rule is_marker_lits)
  next
    case 5
    then show ?thesis by (rule marker_lit_Some) (rule is_marker_lits)
  qed
qed


lemma markers_SomeI:
  assumes m: "is_marker m" and k: "k rest = Some t"
  shows "markers k (m @ rest) = Some t"
proof -
  from m consider c where "dot c" "m = ''youtu'' @ [c] @ ''be/''" | "m = ''v/''"
    | c where "word_char c" "m = ''/u/'' @ [c] @ ''/''" | "m = ''embed/''" | "m = ''watch?''"
    unfolding is_marker_def by blast
  then show ?thesis
  proof cases
    case 1
    then show ?thesis using k by (simp add: markers_def alt_def lit_def)
  next
    case 2
    then show ?thesis using k by (simp add: markers_def alt_def lit_def)
  next
    case 3
    then show ?thesis using k by (simp add: markers_def alt_def lit_def)
  next
    case 4
    then show ?thesis using k by (simp add: markers_def alt_def lit_def)
  next
    case 5
    then show ?thesis using k by (simp add: markers_def alt_def lit_def)
  qed
qed

lemma markers_Some:
  "markers k s = Some t \<longleftrightarrow> (\<exists>m rest. s = m @ rest \<and> is_marker m \<and> k rest = Some t)"
  using markers_SomeD markers_SomeI by blast


lemma star_None:
  "star P K s = None \<longleftrightarrow> (\<forall>pre suf. s = pre @ suf \<and> list_all P pre \<longrightarrow> K suf = None)"
proof (induction s)
  case Nil
  then show ?case by simp
next
  case (Cons c cs)
  have split: "(\<forall>pre suf. c # cs = pre @ suf \<and> list_all P pre \<longrightarrow> K suf = None)
     \<longleftrightarrow> K (c # cs) = None
         \<and> (P c \<longrightarrow> (\<forall>pre suf. cs = pre @ suf \<and> list_all P pre \<longrightarrow> K suf = None))"
    (is "?A \<longleftrightarrow> ?B")
  proof
    assume a: ?A
    from a have "c # cs = [] @ (c # cs) \<and> list_all P [] \<longrightarrow> K (c # cs) = None"
      by blast
    then have 1: "K (c # cs) = None" by simp
    have 2: "K suf = None" if "P c" "cs = pre @ suf" "list_all P pre" for pre suf
    proof -
      from a have "c # cs = (c # pre) @ suf \<and> list_all P (c # pre) \<longrightarrow> K suf = None"
        by blast
      with that show ?thesis by simp
    qed
    from 1 2 show ?B by blast
  next
    assume b: ?B
    show ?A
    proof (intro allI impI)
      fix pre suf assume h: "c # cs = pre @ suf \<and> list_all P pre"
      show "K suf = None"
      proof (cases pre)
        case Nil
        with h b show ?thesis by simp
      next
        case (Cons a pre')
        with h have "a = c" "cs = pre' @ suf" "P c" "list_all P pre'"
          by simp_all
        with b show ?thesis by blast
      qed
    qed
  qed
  show ?case
    unfolding split using Cons.IH by (auto split: option.splits)
qed

lemma star_Some:
  "star P K s = Some t \<longleftrightarrow>
     (\<exists>pre suf. s = pre @ suf \<and> list_all P pre \<and> K suf = Some t
        \<and> (\<forall>pre' suf'. s = pre' @ suf' \<and> length pre < length pre' \<and> list_all P pre'
               \<longrightarrow> K suf' = None))"
  (is "?L s \<longleftrightarrow> ?R s")
proof (induction s)
  case Nil
  then show ?case by simp
next
  case (Cons c cs)
  show ?case
  proof (cases "P c \<and> star P K cs \<noteq> None")
    case True
    then have pc: "P c" and L: "star P K (c # cs) = star P K cs"
      by auto
    show ?thesis
    proof
      assume "?L (c # cs)"
      with L Cons.IH obtain pre suf where p: "cs = pre @ suf" "list_all P pre" "K suf = Some t"
        and last: "\<forall>pre' suf'. cs = pre' @ suf' \<and> length pre < length pre' \<and> list_all P pre'
               \<longrightarrow> K suf' = None"
        by auto
      have "\<forall>pre' suf'. c # cs = pre' @ suf' \<and> length (c # pre) < length pre' \<and> list_all P pre'
               \<longrightarrow> K suf' = None"
        using last by (auto simp: Cons_eq_append_conv)
      with p pc show "?R (c # cs)"
        by (intro exI [of _ "c # pre"] exI [of _ suf]) simp
    next
      assume "?R (c # cs)"
      then obtain pre suf where p: "c # cs = pre @ suf" "list_all P pre" "K suf = Some t"
        and last: "\<forall>pre' suf'. c # cs = pre' @ suf' \<and> length pre < length pre' \<and> list_all P pre'
               \<longrightarrow> K suf' = None"
        by blast
      from True obtain t' where t': "star P K cs = Some t'"
        by auto
      with Cons.IH [of ] have "\<exists>pre suf. cs = pre @ suf \<and> list_all P pre \<and> K suf \<noteq> None"
        using star_None [of P K cs] by auto
      then obtain q suf2 where q: "cs = q @ suf2" "list_all P q" "K suf2 \<noteq> None"
        by blast
      have "pre \<noteq> []"
      proof
        assume "pre = []"
        from last have "c # cs = (c # q) @ suf2 \<and> length pre < length (c # q)
            \<and> list_all P (c # q) \<longrightarrow> K suf2 = None"
          by blast
        with q pc \<open>pre = []\<close> have "K suf2 = None"
          by simp
        with q(3) show False by simp
      qed
      with p obtain pre0 where pre0: "pre = c # pre0" "cs = pre0 @ suf"
        by (auto simp: Cons_eq_append_conv)
      have "\<forall>pre' suf'. cs = pre' @ suf' \<and> length pre0 < length pre' \<and> list_all P pre'
               \<longrightarrow> K suf' = None"
      proof (intro allI impI)
        fix pre' suf' assume a: "cs = pre' @ suf' \<and> length pre0 < length pre' \<and> list_all P pre'"
        with pc pre0 have "c # cs = (c # pre') @ suf' \<and> length pre < length (c # pre')
            \<and> list_all P (c # pre')"
          by simp
        with last show "K suf' = None" by blast
      qed
      with pre0 p(2,3) have "?R cs"
        by auto
      with Cons.IH L show "?L (c # cs)"
        by simp
    qed
  next
    case False
    then have L: "star P K (c # cs) = K (c # cs)"
      by (auto split: option.splits)
    from False have none: "\<forall>pre' suf'. c # cs = pre' @ suf' \<and> 0 < length pre' \<and> list_all P pre'
               \<longrightarrow> K suf' = None"
      using star_None [of P K cs] by (auto simp: Cons_eq_append_conv)
    show ?thesis
    proof
      assume "?L (c # cs)"
      with L none show "?R (c # cs)"
        by (intro exI [of _ "[]"] exI [of _ "c # cs"]) simp
    next
      assume "?R (c # cs)"
      then obtain pre suf where p: "c # cs = pre @ suf" "list_all P pre" "K suf = Some t"
        by blast
      have "pre = []"
      proof (rule ccontr)
        assume "pre \<noteq> []"
        with none p(1,2) have "K suf = None" by auto
        with p(3) show False by simp
      qed
      with p L show "?L (c # cs)" by simp
    qed
  qed
qed


lemma regExp_star: "regExp = star dot (markers (\<lambda>s. Some (token_after s)))"
  by (simp add: regExp_def after_marker)

lemma markers_token_None:
  "markers (\<lambda>s. Some (token_after s)) suf = None
     \<longleftrightarrow> (\<forall>m rest. suf = m @ rest \<longrightarrow> \<not> is_marker m)"
proof -
  have "markers (\<lambda>s. Some (token_after s)) suf = None
          \<longleftrightarrow> (\<forall>t. markers (\<lambda>s. Some (token_after s)) suf \<noteq> Some t)"
    by auto
  also have "\<dots> \<longleftrightarrow> (\<forall>m rest. suf = m @ rest \<longrightarrow> \<not> is_marker m)"
    unfolding markers_Some by blast
  finally show ?thesis .
qed

lemma regExp_Some:
  "regExp u = Some t \<longleftrightarrow> (\<exists>pre m rest. last_marker u pre m rest \<and> token_after rest = t)"
proof
  assume "regExp u = Some t"
  then obtain pre suf where p: "u = pre @ suf" "list_all dot pre"
      "markers (\<lambda>s. Some (token_after s)) suf = Some t"
    and last: "\<forall>pre' suf'. u = pre' @ suf' \<and> length pre < length pre' \<and> list_all dot pre'
               \<longrightarrow> markers (\<lambda>s. Some (token_after s)) suf' = None"
    unfolding regExp_star star_Some by blast
  from p(3) obtain m rest where m: "suf = m @ rest" "is_marker m" "token_after rest = t"
    unfolding markers_Some by auto
  have "\<not> is_marker m'"
    if "u = pre' @ m' @ rest' \<and> length pre < length pre' \<and> list_all dot pre'" for pre' m' rest'
  proof -
    from last that have "markers (\<lambda>s. Some (token_after s)) (m' @ rest') = None"
      by blast
    then show ?thesis
      unfolding markers_token_None by blast
  qed
  with p m have "last_marker u pre m rest"
    unfolding last_marker_def by blast
  with m(3) show "\<exists>pre m rest. last_marker u pre m rest \<and> token_after rest = t"
    by blast
next
  assume "\<exists>pre m rest. last_marker u pre m rest \<and> token_after rest = t"
  then obtain pre m rest where u: "u = pre @ m @ rest" "list_all dot pre" "is_marker m"
    and last: "\<forall>pre' m' rest'. u = pre' @ m' @ rest' \<and> length pre < length pre'
             \<and> list_all dot pre' \<longrightarrow> \<not> is_marker m'"
    and t: "token_after rest = t"
    unfolding last_marker_def by blast
  have here: "markers (\<lambda>s. Some (token_after s)) (m @ rest) = Some t"
    using u(3) t by (intro markers_SomeI) simp_all
  have later: "markers (\<lambda>s. Some (token_after s)) suf' = None"
    if "u = pre' @ suf' \<and> length pre < length pre' \<and> list_all dot pre'" for pre' suf'
    unfolding markers_token_None using last that by blast
  show "regExp u = Some t"
    unfolding regExp_star star_Some using u(1,2) here later by blast
qed

text \<open>
  Against claim C7 as stated, with the four forms the claim lists: a URL of the form
  \<open>/u/<character>/<id>\<close> contains none of the four and its 11-character id is
  extracted; a URL with \<open>?v=<id>\<close> and an 11-character id, but without any of the
  pattern's markers, yields \<open>null\<close>.
\<close>

theorem extractYouTubeId_other_forms:
  "extractYouTubeId ''https://www.youtube.com/u/1/dQw4w9WgXcQ'' = Some ''dQw4w9WgXcQ''
   \<and> \<not> spec_accepted_form ''https://www.youtube.com/u/1/dQw4w9WgXcQ'' ''dQw4w9WgXcQ''
   \<and> spec_accepted_form ''https://example.com/?v=dQw4w9WgXcQ'' ''dQw4w9WgXcQ''
   \<and> length ''dQw4w9WgXcQ'' = 11
   \<and> extractYouTubeId ''https://example.com/?v=dQw4w9WgXcQ'' = None"
proof -
  have 1: "extractYouTubeId ''https://www.youtube.com/u/1/dQw4w9WgXcQ'' = Some ''dQw4w9WgXcQ''"
    by (simp add: extractYouTubeId_def regExp_def markers_def alt_def opt_def lit_def capture_def
        dot_def not_sep_def word_char_def)
  have 2: "\<not> spec_accepted_form ''https://www.youtube.com/u/1/dQw4w9WgXcQ'' ''dQw4w9WgXcQ''"
    by (simp add: spec_accepted_form_def sublist_code)
  have 3: "spec_accepted_form ''https://example.com/?v=dQw4w9WgXcQ'' ''dQw4w9WgXcQ''"
    by (simp add: spec_accepted_form_def sublist_code)
  have 4: "extractYouTubeId ''https://example.com/?v=dQw4w9WgXcQ'' = None"
    by (simp add: extractYouTubeId_def regExp_def markers_def alt_def opt_def lit_def capture_def
        dot_def not_sep_def word_char_def)
  from 1 2 3 4 show ?thesis by simp
qed

text \<open>
  Claim C7, amended. \<open>extractYouTubeId\<close> returns a token exactly when the URL has a last
  marker (after a text without a line terminator, one of \<open>youtu<any character>be/\<close>,
  \<open>v/\<close>, \<open>/u/<word character>/\<close>, \<open>embed/\<close>, \<open>watch?\<close>, with no marker starting
  later) and the token after it (one \<open>?\<close>, one \<open>v\<close> and one \<open>=\<close> skipped if present,
  then up to the first \<open>#\<close>, \<open>&\<close> or \<open>?\<close>) is exactly 11 characters long; it returns
  that token. When the token after the last marker has another length the result is
  \<open>null\<close>. For \<open>https://youtu.be/dQw4w9WgXcQ\<close> the result is \<open>dQw4w9WgXcQ\<close>; for
  \<open>https://youtu.be/dQw4w9WgXc\<close>, whose token has 10 characters, it is \<open>null\<close>.
\<close>

theorem extractYouTubeId_last_marker:
  "(extractYouTubeId u = Some t
      \<longleftrightarrow> (\<exists>pre m rest. last_marker u pre m rest \<and> token_after rest = t \<and> length t = 11))
   \<and> (\<forall>pre m rest. last_marker u pre m rest \<and> length (token_after rest) \<noteq> 11
          \<longrightarrow> extractYouTubeId u = None)
   \<and> extractYouTubeId ''https://youtu.be/dQw4w9WgXcQ'' = Some ''dQw4w9WgXcQ''
   \<and> extractYouTubeId ''https://youtu.be/dQw4w9WgXc'' = None"
proof (intro conjI allI impI)
  show "extractYouTubeId u = Some t
      \<longleftrightarrow> (\<exists>pre m rest. last_marker u pre m rest \<and> token_after rest = t \<and> length t = 11)"
  proof -
    have "extractYouTubeId u = Some t \<longleftrightarrow> regExp u = Some t \<and> length t = 11"
      by (auto simp: extractYouTubeId_def split: option.splits)
    then show ?thesis
      unfolding regExp_Some by blast
  qed
next
  fix pre m rest
  assume "last_marker u pre m rest \<and> length (token_after rest) \<noteq> 11"
  then have "regExp u = Some (token_after rest)" "length (token_after rest) \<noteq> 11"
    unfolding regExp_Some by blast+
  then show "extractYouTubeId u = None"
    by (simp add: extractYouTubeId_def)
next
  show "extractYouTubeId ''https://youtu.be/dQw4w9WgXcQ'' = Some ''dQw4w9WgXcQ''"
    by (simp add: extractYouTubeId_def regExp_def markers_def alt_def opt_def lit_def capture_def
        dot_def not_sep_def word_char_def)
next
  show "extractYouTubeId ''https://youtu.be/dQw4w9WgXc'' = None"
    by (simp add: extractYouTubeId_def regExp_def markers_def alt_def opt_def lit_def capture_def
        dot_def not_sep_def word_char_def)
qed

text \<open>A watch URL with a further parameter: the last marker is \<open>watch?\<close> and the token
  ends at \<open>&\<close>.\<close>

theorem extractYouTubeId_last_marker_witness:
  "extractYouTubeId ''https://www.youtube.com/watch?v=dQw4w9WgXcQ&t=42'' = Some ''dQw4w9WgXcQ''
   \<and> (\<exists>pre m rest. last_marker ''https://www.youtube.com/watch?v=dQw4w9WgXcQ&t=42'' pre m rest
         \<and> token_after rest = ''dQw4w9WgXcQ'' \<and> length ''dQw4w9WgXcQ'' = 11)"
proof -
  have e: "extractYouTubeId ''https://www.youtube.com/watch?v=dQw4w9WgXcQ&t=42''
             = Some ''dQw4w9WgXcQ''"
    by (simp add: extractYouTubeId_def regExp_def markers_def alt_def opt_def lit_def capture_def
        dot_def not_sep_def word_char_def)
  from extractYouTubeId_last_marker
    [of "''https://www.youtube.com/watch?v=dQw4w9WgXcQ&t=42''" "''dQw4w9WgXcQ''"] e
  show ?thesis
    by blast
qed

section \<open>The stores the handlers build\<close>

text \<open>
  The empty store satisfies the three predicates on keys. No handler breaks
  \<open>progress_keyed\<close>: \<open>save_progress\<close> stores a record under its own key and the admin
  handlers store no progress record. A week created under a subject keeps
  \<open>weeks_keyed\<close> for that subject.
\<close>

lemma empty_store_keyed: "progress_keyed [] \<and> subjects_keyed [] \<and> weeks_keyed a []"
  by (simp add: progress_keyed_def subjects_keyed_def weeks_keyed_def)

lemma progress_keyed_filter: "progress_keyed s \<Longrightarrow> progress_keyed (filter P s)"
  by (simp add: progress_keyed_def list_all_iff)

lemma save_progress_keeps_keyed:
  "progress_keyed s \<Longrightarrow> progress_keyed (snd (save_progress e header body s))"
  by (auto simp: save_progress_def Let_def progress_key_def
      intro!: progress_keyed_set split: sum.splits option.splits)

lemma admin_handlers_keep_progress_keyed:
  assumes "progress_keyed s"
  shows "progress_keyed (snd (create_subject e header sb s))"
    and "progress_keyed (snd (delete_subject e header a s))"
    and "progress_keyed (snd (create_week e header wb s))"
    and "progress_keyed (snd (update_week e header i wb s))"
    and "progress_keyed (snd (delete_week e header i s))"
proof -
  show "progress_keyed (snd (create_subject e header sb s))"
    using assms
    by (auto simp: create_subject_def Let_def intro!: progress_keyed_set
        split: sum.splits option.splits)
  show "progress_keyed (snd (delete_subject e header a s))"
  proof (cases "require_admin e header s")
    case (Inl r)
    then show ?thesis using assms by (simp add: delete_subject_def)
  next
    case (Inr uid)
    show ?thesis
      unfolding delete_subject_result [OF Inr] using assms
      by (simp add: progress_keyed_filter progress_keyed_del)
  qed
  show "progress_keyed (snd (create_week e header wb s))"
    using assms
    by (auto simp: create_week_def Let_def intro!: progress_keyed_set
        split: sum.splits option.splits)
  show "progress_keyed (snd (update_week e header i wb s))"
    using assms
    by (auto simp: update_week_def Let_def intro!: progress_keyed_set
        split: sum.splits option.splits)
  show "progress_keyed (snd (delete_week e header i s))"
    using assms
    by (auto simp: delete_week_def Let_def intro!: progress_keyed_del
        split: sum.splits option.splits)
qed

lemma weeks_keyed_create:
  assumes "weeks_keyed a s" and "create_week e header (Some b) s = (Json w, s')"
    and "subjectId w = a"
  shows "weeks_keyed a s'"
proof -
  from create_week_Json [OF assms(2)] assms(3)
  have s': "s' = kv_set (week_key a (week_id w)) (VWeek w) s"
    by simp
  show ?thesis
    using assms(1) unfolding s'
    by (simp add: weeks_keyed_def kv_set_def kv_del_def list_all_iff)
qed

end
